(* ===== verification/Mic_Prelude.thy ===== *)
theory Mic_Prelude
  imports Main
begin

text \<open>
  Shared vocabulary of the development: the hardware variant and error types that every
  component mentions, and a small model of the configuration-validation library that
  both microphone platforms call (\<open>esphome.config_validation\<close>, itself built on
  voluptuous). Only the library behaviour the sources rely on is modelled:
  \<^item> a schema validates every key and collects the errors of all keys
    (voluptuous' \<open>MultipleInvalid\<close>): the applicative combinator \<open>ap_v\<close> over
    \<open>error list + 'a\<close>;
  \<^item> \<open>cv.Optional(key, default=d)\<close> validates the default when the key is absent
    (\<open>optional_v\<close>), \<open>cv.Required(key)\<close> reports a missing key (\<open>required_v\<close>);
  \<^item> \<open>cv.enum\<close> / \<open>one_of\<close> is a lookup in an association list (\<open>enum_v\<close>), and
    \<open>cv.int_range\<close> a bounds check (\<open>int_range_v\<close>);
  \<^item> \<open>cv.All(a, b)\<close> runs \<open>b\<close> only on what \<open>a\<close> accepted (\<open>all_v\<close>).
\<close>

section \<open>Model types shared by all components\<close>

text \<open>The ESP32 family members known to \<open>esphome.components.esp32.const\<close>.\<close>

datatype esp32_variant =
    VARIANT_ESP32
  | VARIANT_ESP32S2
  | VARIANT_ESP32S3
  | VARIANT_ESP32C3
  | VARIANT_ESP32C2
  | VARIANT_ESP32C6
  | VARIANT_ESP32H2

text \<open>
  Every failure the modelled code can raise: \<open>cv.Invalid\<close> with the message's payload,
  \<open>NotImplementedError\<close>, a Python \<open>KeyError\<close> on a dictionary lookup, and the runtime
  errors of the capture pipeline (spec section 7).
\<close>

datatype error =
    UnsupportedModeForVariant esp32_variant
  | NoInternalADC esp32_variant
  | NotImplementedError
  | InvalidChannelSelector string
  | InvalidPinSelector nat
  | UnsupportedBitDepth int
  | InvalidSampleRate int
  | InvalidGain int
  | InvalidAdcPin nat
  | InvalidDinPin nat
  | RequiredKeyMissing string
  | ExtraKeyNotAllowed string
  | AdcTypeNotSpecified
  | UnknownAdcType string
  | KeyError string
  | KeyErrorPin nat
  | CapabilityMismatch
  | PeripheralBusy
  | PeripheralInitError
  | NoSuchEngine nat
  | InvalidPipelineState
  | RequiresComponent string string

type_synonym 'a validated = "error list + 'a"

named_theorems validation_simps "evaluation rules of the validation-library model"

section \<open>The validation library\<close>

fun errs :: "'e + 'a \<Rightarrow> 'e list" where
  "errs (Inl e) = [e]"
| "errs (Inr _) = []"

fun errs_l :: "'e list + 'a \<Rightarrow> 'e list" where
  "errs_l (Inl es) = es"
| "errs_l (Inr _) = []"

text \<open>Applying a validated constructor to one more validated field, collecting errors.\<close>

fun ap_v :: "'e list + ('a \<Rightarrow> 'b) \<Rightarrow> 'e + 'a \<Rightarrow> 'e list + 'b" where
  "ap_v (Inr f) (Inr x) = Inr (f x)"
| "ap_v (Inr f) (Inl e) = Inl [e]"
| "ap_v (Inl es) x = Inl (es @ errs x)"

definition optional_v :: "'a \<Rightarrow> ('a \<Rightarrow> 'e + 'b) \<Rightarrow> 'a option \<Rightarrow> 'e + 'b" where
  "optional_v d v x = v (case x of None \<Rightarrow> d | Some y \<Rightarrow> y)"

definition required_v :: "'e \<Rightarrow> ('a \<Rightarrow> 'e + 'b) \<Rightarrow> 'a option \<Rightarrow> 'e + 'b" where
  "required_v e v x = (case x of None \<Rightarrow> Inl e | Some y \<Rightarrow> v y)"

definition enum_v :: "('a \<Rightarrow> 'e) \<Rightarrow> ('a \<times> 'b) list \<Rightarrow> 'a \<Rightarrow> 'e + 'b" where
  "enum_v bad m x = (case map_of m x of None \<Rightarrow> Inl (bad x) | Some y \<Rightarrow> Inr y)"

definition int_range_v :: "(int \<Rightarrow> 'e) \<Rightarrow> int option \<Rightarrow> int option \<Rightarrow> int \<Rightarrow> 'e + int" where
  "int_range_v bad lo hi x =
     (if (case lo of None \<Rightarrow> True | Some l \<Rightarrow> l \<le> x) \<and> (case hi of None \<Rightarrow> True | Some h \<Rightarrow> x \<le> h)
      then Inr x else Inl (bad x))"

definition all_v :: "('a \<Rightarrow> 'e list + 'b) \<Rightarrow> ('b \<Rightarrow> 'e + 'c) \<Rightarrow> 'a \<Rightarrow> 'e list + 'c" where
  "all_v s v x = (case s x of Inl es \<Rightarrow> Inl es | Inr y \<Rightarrow> (case v y of Inl e \<Rightarrow> Inl [e] | Inr z \<Rightarrow> Inr z))"

text \<open>
  A schema without \<open>extra=ALLOW_EXTRA\<close> rejects every key it does not declare; each
  such key present in the input adds one error to those of the declared keys.
\<close>

definition no_extra_keys :: "(string \<times> bool) list \<Rightarrow> 'a validated \<Rightarrow> 'a validated" where
  "no_extra_keys ks s =
     (let extra = map (ExtraKeyNotAllowed \<circ> fst) (filter snd ks)
      in if extra = [] then s else Inl (errs_l s @ extra))"

declare no_extra_keys_def [validation_simps] optional_v_def [validation_simps] required_v_def [validation_simps]
  enum_v_def [validation_simps] int_range_v_def [validation_simps] all_v_def [validation_simps]

section \<open>Lemmas on the validation library\<close>

lemma ap_v_Inr_iff [simp]:
  "ap_v f x = Inr y \<longleftrightarrow> (\<exists>g v. f = Inr g \<and> x = Inr v \<and> y = g v)"
  by (cases f; cases x) auto

lemma errs_l_ap_v [simp]: "errs_l (ap_v f x) = errs_l f @ errs x"
  by (cases f; cases x) auto

lemma ap_v_Inl_Nil_iff [simp]: "ap_v f x = Inl [] \<longleftrightarrow> f = Inl [] \<and> (\<exists>y. x = Inr y)"
  by (cases f; cases x) auto

lemma ap_v_isl: "isl (ap_v f x) \<longleftrightarrow> isl f \<or> isl x"
  by (cases f; cases x) auto

lemma errs_l_Inr_iff: "errs_l s = [] \<longleftrightarrow> (\<exists>y. s = Inr y) \<or> s = Inl []"
  by (cases s) auto

lemma errs_empty_iff [simp]: "errs s = [] \<longleftrightarrow> (\<exists>y. s = Inr y)"
  by (cases s) auto

lemma errs_l_ap_v_nonempty: "f = Inr g \<or> errs_l f \<noteq> [] \<Longrightarrow> ap_v f x = Inl es \<Longrightarrow> es \<noteq> []"
  by (cases f; cases x) auto

lemma optional_v_None [simp]: "optional_v d v None = v d"
  and optional_v_Some [simp]: "optional_v d v (Some y) = v y"
  by (simp_all add: optional_v_def)

lemma required_v_None [simp]: "required_v e v None = Inl e"
  and required_v_Some [simp]: "required_v e v (Some y) = v y"
  by (simp_all add: required_v_def)

lemma enum_v_Inr_iff [simp]: "enum_v bad m x = Inr y \<longleftrightarrow> map_of m x = Some y"
  by (auto simp: enum_v_def split: option.splits)

lemma enum_v_Inl_iff [simp]: "enum_v bad m x = Inl e \<longleftrightarrow> map_of m x = None \<and> e = bad x"
  by (auto simp: enum_v_def split: option.splits)

lemma int_range_v_Inr_iff [simp]:
  "int_range_v bad lo hi x = Inr y \<longleftrightarrow>
     y = x \<and> (\<forall>l. lo = Some l \<longrightarrow> l \<le> x) \<and> (\<forall>h. hi = Some h \<longrightarrow> x \<le> h)"
  by (auto simp: int_range_v_def split: option.splits)

lemma all_v_Inr_iff [simp]:
  "all_v s v x = Inr z \<longleftrightarrow> (\<exists>y. s x = Inr y \<and> v y = Inr z)"
  by (auto simp: all_v_def split: sum.splits)

lemma set_extra_key_errors:
  "set (map (ExtraKeyNotAllowed \<circ> fst) (filter snd ks)) = {ExtraKeyNotAllowed k | k. (k, True) \<in> set ks}"
  by (force simp: image_iff)

lemma no_extra_keys_Inr_iff [simp]:
  "no_extra_keys ks s = Inr y \<longleftrightarrow> s = Inr y \<and> (\<forall>k. (k, True) \<notin> set ks)"
proof -
  have "filter snd ks = [] \<longleftrightarrow> (\<forall>k. (k, True) \<notin> set ks)"
    by (force simp: filter_empty_conv)
  then show ?thesis by (auto simp: no_extra_keys_def)
qed

lemma errs_l_no_extra_keys:
  "set (errs_l (no_extra_keys ks s)) = set (errs_l s) \<union> {ExtraKeyNotAllowed k | k. (k, True) \<in> set ks}"
proof (cases "filter snd ks = []")
  case True
  then have "\<forall>k. (k, True) \<notin> set ks" by (force simp: filter_empty_conv)
  with True show ?thesis by (simp add: no_extra_keys_def)
next
  case False
  then show ?thesis using set_extra_key_errors [of ks] by (simp add: no_extra_keys_def)
qed

lemma no_extra_keys_Inl_Nil_iff [simp]:
  "no_extra_keys ks s = Inl [] \<longleftrightarrow> s = Inl [] \<and> filter snd ks = []"
  by (cases s) (auto simp: no_extra_keys_def)

lemma all_v_first_fails: "s x = Inl es \<Longrightarrow> all_v s v x = Inl es"
  by (simp add: all_v_def)

section \<open>Generic lemmas on lists\<close>

lemma nth_list_update_if:
  "j < length xs \<Longrightarrow> xs[i := v] ! j = (if i = j then v else xs ! j)"
  by (cases "i = j") simp_all

end
