(* ===== verification/Platform.thy ===== *)
theory Platform
  imports Mic_Prelude
begin

text \<open>
  The hardware-variant registry (spec sections 3 and 4.2) as the I2S microphone platform
  sees it. The two capability lists are the constants of
  \<open>i2s_audio/microphone/__init__.py\<close>; everything else the platform asks of ESPHome
  (the current variant, the ADC1 pin table, the ADC-pin and GPIO-pin validators) is a
  collaborator outside this repository and is a field of the interface record
  \<open>platform\<close>, so that every lemma of the schema and code-generation theories holds
  for any ESPHome version that provides such a record.
\<close>

definition INTERNAL_ADC_VARIANTS :: "esp32_variant list" where
  "INTERNAL_ADC_VARIANTS = [VARIANT_ESP32]"

definition PDM_VARIANTS :: "esp32_variant list" where
  "PDM_VARIANTS = [VARIANT_ESP32, VARIANT_ESP32S3]"

record platform =
  current_variant :: esp32_variant
  adc1_pin_to_channel :: "esp32_variant \<Rightarrow> nat \<rightharpoonup> nat"
  adc_pin_ok :: "esp32_variant \<Rightarrow> nat \<Rightarrow> bool"
  gpio_input_ok :: "nat \<Rightarrow> bool"

text \<open>\<open>esphome.components.adc.validate_adc_pin\<close>: it reads the variant itself.\<close>

definition validate_adc_pin :: "platform \<Rightarrow> nat \<Rightarrow> error + nat" where
  "validate_adc_pin p n =
     (if adc_pin_ok p (current_variant p) n then Inr n else Inl (InvalidAdcPin n))"

text \<open>\<open>esphome.pins.internal_gpio_input_pin_number\<close>.\<close>

definition internal_gpio_input_pin_number :: "platform \<Rightarrow> nat \<Rightarrow> error + nat" where
  "internal_gpio_input_pin_number p n =
     (if gpio_input_ok p n then Inr n else Inl (InvalidDinPin n))"

text \<open>
  The assumption the code generator makes of its collaborators: every pin the ADC-pin
  validator accepts on the current variant is in that variant's ADC1 table.
\<close>

definition adc1_only :: "platform \<Rightarrow> bool" where
  "adc1_only p \<longleftrightarrow>
     (\<forall>n. adc_pin_ok p (current_variant p) n \<longrightarrow> adc1_pin_to_channel p (current_variant p) n \<noteq> None)"

text \<open>The validator admits exactly the pins of the ADC1 table (ESPHome's ADC1-only validator).\<close>

definition adc1_exact :: "platform \<Rightarrow> bool" where
  "adc1_exact p \<longleftrightarrow>
     (\<forall>n. adc_pin_ok p (current_variant p) n \<longleftrightarrow> adc1_pin_to_channel p (current_variant p) n \<noteq> None)"

section \<open>A concrete platform for the witnesses\<close>

text \<open>
  The ADC1 tables of the classic ESP32 (GPIO36..39 are channels 0..3, GPIO32..35 are
  channels 4..7) and of the ESP32-S3 (GPIO1..10 are channels 0..9), a validator that accepts exactly the table's pins, and a second one that
  also accepts the ADC2 pin GPIO4, as ESPHome versions with ADC2 support do.
\<close>

definition esp32_adc1_table :: "esp32_variant \<Rightarrow> nat \<rightharpoonup> nat" where
  "esp32_adc1_table v =
     (if v = VARIANT_ESP32
      then map_of [(36, 0), (37, 1), (38, 2), (39, 3), (32, 4), (33, 5), (34, 6), (35, 7)]
      else if v = VARIANT_ESP32S3
      then map_of [(1, 0), (2, 1), (3, 2), (4, 3), (5, 4), (6, 5), (7, 6), (8, 7), (9, 8), (10, 9)]
      else Map.empty)"

definition example_platform :: "esp32_variant \<Rightarrow> platform" where
  "example_platform v =
     \<lparr>current_variant = v, adc1_pin_to_channel = esp32_adc1_table,
      adc_pin_ok = (\<lambda>w n. esp32_adc1_table w n \<noteq> None),
      gpio_input_ok = (\<lambda>n. n < 40)\<rparr>"

definition adc2_platform :: platform where
  "adc2_platform = (example_platform VARIANT_ESP32)
     \<lparr>adc_pin_ok := (\<lambda>w n. esp32_adc1_table w n \<noteq> None \<or> (w = VARIANT_ESP32 \<and> n = 4))\<rparr>"

section \<open>Lemmas\<close>

lemmas platform_defs = validate_adc_pin_def internal_gpio_input_pin_number_def
  example_platform_def adc2_platform_def esp32_adc1_table_def

lemma PDM_VARIANTS_iff [simp]: "v \<in> set PDM_VARIANTS \<longleftrightarrow> v = VARIANT_ESP32 \<or> v = VARIANT_ESP32S3"
  by (auto simp: PDM_VARIANTS_def)

lemma INTERNAL_ADC_VARIANTS_iff [simp]: "v \<in> set INTERNAL_ADC_VARIANTS \<longleftrightarrow> v = VARIANT_ESP32"
  by (simp add: INTERNAL_ADC_VARIANTS_def)

lemma internal_adc_variants_pdm: "v \<in> set INTERNAL_ADC_VARIANTS \<Longrightarrow> v \<in> set PDM_VARIANTS"
  by simp

lemma validate_adc_pin_Inr_iff [simp]:
  "validate_adc_pin p n = Inr m \<longleftrightarrow> m = n \<and> adc_pin_ok p (current_variant p) n"
  by (auto simp: validate_adc_pin_def)

lemma internal_gpio_input_pin_number_Inr_iff [simp]:
  "internal_gpio_input_pin_number p n = Inr m \<longleftrightarrow> m = n \<and> gpio_input_ok p n"
  by (auto simp: internal_gpio_input_pin_number_def)

lemma adc1_onlyD:
  "adc1_only p \<Longrightarrow> adc_pin_ok p (current_variant p) n \<Longrightarrow>
     \<exists>ch. adc1_pin_to_channel p (current_variant p) n = Some ch"
  by (auto simp: adc1_only_def)

lemma adc1_exact_adc1_only: "adc1_exact p \<Longrightarrow> adc1_only p"
  by (simp add: adc1_exact_def adc1_only_def)

lemma adc1_exact_example_platform: "adc1_exact (example_platform v)"
  by (simp add: adc1_exact_def example_platform_def)

lemma adc1_only_example_platform: "adc1_only (example_platform v)"
  by (simp add: adc1_only_def example_platform_def)

end
