(* ===== verification/I2S_Schema.thy ===== *)
theory I2S_Schema
  imports Platform
begin

text \<open>
  The configuration schema of the I2S/ADC microphone platform,
  \<open>src/esphome/components/i2s_audio/microphone/__init__.py\<close> lines 26--102: the enum
  tables \<open>CHANNELS\<close> and \<open>BITS_PER_SAMPLE\<close>, the shared \<open>BASE_SCHEMA\<close>, the
  two branches of the \<open>typed_schema\<close> keyed by \<open>adc_type\<close>, the cross-field
  validator \<open>validate_esp32_variant\<close> and their composition \<open>CONFIG_SCHEMA\<close>.
  The user's mapping is the record \<open>raw_mic_config\<close> (an absent key is \<open>None\<close>); the
  validated mapping is \<open>i2s_mic_config\<close>, with the keys the code later reads.
  The lemmas show what an accepted configuration satisfies (\<open>wf_i2s_config\<close>), which
  error each rejected one reports, which branches of the code are dead, and that the
  schema accepts every well-formed configuration back unchanged.
\<close>

section \<open>Enum tables and configuration records\<close>

datatype i2s_channel_fmt_t = I2S_CHANNEL_FMT_ONLY_LEFT | I2S_CHANNEL_FMT_ONLY_RIGHT

datatype i2s_bits_per_sample_t = I2S_BITS_PER_SAMPLE_16BIT | I2S_BITS_PER_SAMPLE_32BIT

definition CHANNELS :: "(string \<times> i2s_channel_fmt_t) list" where
  "CHANNELS = [(''left'', I2S_CHANNEL_FMT_ONLY_LEFT), (''right'', I2S_CHANNEL_FMT_ONLY_RIGHT)]"

definition BITS_PER_SAMPLE :: "(int \<times> i2s_bits_per_sample_t) list" where
  "BITS_PER_SAMPLE = [(16, I2S_BITS_PER_SAMPLE_16BIT), (32, I2S_BITS_PER_SAMPLE_32BIT)]"

text \<open>
  The user's mapping after YAML parsing. \<open>raw_bits_per_sample\<close> is the number the unit
  parser \<open>cv.float_with_unit("bits", "bit")\<close> read (\<open>"32bit"\<close> gives 32).
\<close>

record raw_mic_config =
  raw_adc_type :: "string option"
  raw_channel :: "string option"
  raw_sample_rate :: "int option"
  raw_bits_per_sample :: "int option"
  raw_use_apll :: "bool option"
  raw_adc_pin :: "nat option"
  raw_i2s_din_pin :: "nat option"
  raw_pdm :: "bool option"

record i2s_mic_config =
  adc_type :: string
  channel :: i2s_channel_fmt_t
  sample_rate :: int
  bits_per_sample :: i2s_bits_per_sample_t
  use_apll :: bool
  adc_pin :: "nat option"
  i2s_din_pin :: "nat option"
  pdm :: "bool option"

section \<open>Field validators of \<open>BASE_SCHEMA\<close>\<close>

definition validate_channel :: "string option \<Rightarrow> error + i2s_channel_fmt_t" where
  "validate_channel = optional_v ''right'' (enum_v InvalidChannelSelector CHANNELS)"

definition validate_sample_rate :: "int option \<Rightarrow> error + int" where
  "validate_sample_rate = optional_v 16000 (int_range_v InvalidSampleRate (Some 1) None)"

definition validate_bits_per_sample :: "int option \<Rightarrow> error + i2s_bits_per_sample_t" where
  "validate_bits_per_sample = optional_v 32 (enum_v UnsupportedBitDepth BITS_PER_SAMPLE)"

definition validate_use_apll :: "bool option \<Rightarrow> error + bool" where
  "validate_use_apll = optional_v False Inr"

section \<open>The two branches of the typed schema\<close>

text \<open>
  \<open>BASE_SCHEMA.extend({Required(adc_pin): validate_adc_pin})\<close>: the keys of the
  external branch are extra keys here.
\<close>

definition internal_schema :: "platform \<Rightarrow> raw_mic_config \<Rightarrow> i2s_mic_config validated" where
  "internal_schema p r =
     no_extra_keys [(''i2s_din_pin'', raw_i2s_din_pin r \<noteq> None), (''pdm'', raw_pdm r \<noteq> None)]
       (ap_v (ap_v (ap_v (ap_v (ap_v
          (Inr (\<lambda>c s b a n. \<lparr>adc_type = ''internal'', channel = c, sample_rate = s,
                  bits_per_sample = b, use_apll = a, adc_pin = Some n,
                  i2s_din_pin = None, pdm = None\<rparr>))
          (validate_channel (raw_channel r)))
          (validate_sample_rate (raw_sample_rate r)))
          (validate_bits_per_sample (raw_bits_per_sample r)))
          (validate_use_apll (raw_use_apll r)))
          (required_v (RequiredKeyMissing ''adc_pin'') (validate_adc_pin p) (raw_adc_pin r)))"

text \<open>
  \<open>BASE_SCHEMA.extend({Required(i2s_din_pin): internal_gpio_input_pin_number,
  Required(pdm): boolean, Optional(i2s_adc): ...}).extend(CONFIG_SCHEMA_I2S_COMMON)\<close>;
  the ADC-model and common I2S keys are not modelled.
\<close>

definition external_schema :: "platform \<Rightarrow> raw_mic_config \<Rightarrow> i2s_mic_config validated" where
  "external_schema p r =
     no_extra_keys [(''adc_pin'', raw_adc_pin r \<noteq> None)]
       (ap_v (ap_v (ap_v (ap_v (ap_v (ap_v
          (Inr (\<lambda>c s b a d m. \<lparr>adc_type = ''external'', channel = c, sample_rate = s,
                  bits_per_sample = b, use_apll = a, adc_pin = None,
                  i2s_din_pin = Some d, pdm = Some m\<rparr>))
          (validate_channel (raw_channel r)))
          (validate_sample_rate (raw_sample_rate r)))
          (validate_bits_per_sample (raw_bits_per_sample r)))
          (validate_use_apll (raw_use_apll r)))
          (required_v (RequiredKeyMissing ''i2s_din_pin'') (internal_gpio_input_pin_number p)
             (raw_i2s_din_pin r)))
          (required_v (RequiredKeyMissing ''pdm'') Inr (raw_pdm r)))"

text \<open>
  \<open>cv.typed_schema({...}, key=adc_type)\<close>: the key must be present and be one of the
  two schema names (case-sensitive); the chosen schema validates the rest.
\<close>

definition i2s_typed_schema :: "platform \<Rightarrow> raw_mic_config \<Rightarrow> i2s_mic_config validated" where
  "i2s_typed_schema p r =
     (case raw_adc_type r of
        None \<Rightarrow> Inl [AdcTypeNotSpecified]
      | Some t \<Rightarrow>
          (if t = ''internal'' then internal_schema p r
           else if t = ''external'' then external_schema p r
           else Inl [UnknownAdcType t]))"

section \<open>\<open>validate_esp32_variant\<close> and \<open>CONFIG_SCHEMA\<close>\<close>

text \<open>Lines 54--65; \<open>config[CONF_PDM]\<close> raises \<open>KeyError\<close> when the key is absent.\<close>

definition validate_esp32_variant :: "platform \<Rightarrow> i2s_mic_config \<Rightarrow> error + i2s_mic_config" where
  "validate_esp32_variant p config =
     (let variant = current_variant p in
      if adc_type config = ''external'' then
        (case pdm config of
           None \<Rightarrow> Inl (KeyError ''pdm'')
         | Some b \<Rightarrow>
             (if b then
                (if variant \<notin> set PDM_VARIANTS then Inl (UnsupportedModeForVariant variant)
                 else Inr config)
              else Inr config))
      else if adc_type config = ''internal'' then
        (if variant \<notin> set INTERNAL_ADC_VARIANTS then Inl (NoInternalADC variant)
         else Inr config)
      else Inl NotImplementedError)"

definition i2s_CONFIG_SCHEMA :: "platform \<Rightarrow> raw_mic_config \<Rightarrow> i2s_mic_config validated" where
  "i2s_CONFIG_SCHEMA p = all_v (i2s_typed_schema p) (validate_esp32_variant p)"

section \<open>Well-formed validated configurations\<close>

text \<open>What every configuration accepted by \<open>i2s_CONFIG_SCHEMA\<close> satisfies.\<close>

definition wf_i2s_config :: "platform \<Rightarrow> i2s_mic_config \<Rightarrow> bool" where
  "wf_i2s_config p c \<longleftrightarrow>
     1 \<le> sample_rate c \<and>
     (adc_type c = ''internal'' \<and>
        (\<exists>n. adc_pin c = Some n \<and> adc_pin_ok p (current_variant p) n) \<and>
        i2s_din_pin c = None \<and> pdm c = None \<and>
        current_variant p \<in> set INTERNAL_ADC_VARIANTS
      \<or> adc_type c = ''external'' \<and> adc_pin c = None \<and>
        (\<exists>d. i2s_din_pin c = Some d \<and> gpio_input_ok p d) \<and>
        (\<exists>b. pdm c = Some b \<and> (b \<longrightarrow> current_variant p \<in> set PDM_VARIANTS)))"

section \<open>Printing a validated configuration back to a mapping\<close>

definition channel_key :: "i2s_channel_fmt_t \<Rightarrow> string" where
  "channel_key c = (case c of I2S_CHANNEL_FMT_ONLY_LEFT \<Rightarrow> ''left'' | I2S_CHANNEL_FMT_ONLY_RIGHT \<Rightarrow> ''right'')"

definition bits_key :: "i2s_bits_per_sample_t \<Rightarrow> int" where
  "bits_key b = (case b of I2S_BITS_PER_SAMPLE_16BIT \<Rightarrow> 16 | I2S_BITS_PER_SAMPLE_32BIT \<Rightarrow> 32)"

definition raw_of_config :: "i2s_mic_config \<Rightarrow> raw_mic_config" where
  "raw_of_config c =
     \<lparr>raw_adc_type = Some (adc_type c), raw_channel = Some (channel_key (channel c)),
      raw_sample_rate = Some (sample_rate c), raw_bits_per_sample = Some (bits_key (bits_per_sample c)),
      raw_use_apll = Some (use_apll c), raw_adc_pin = adc_pin c,
      raw_i2s_din_pin = i2s_din_pin c, raw_pdm = pdm c\<rparr>"

text \<open>The errors a schema (as opposed to a cross-field validator) can raise.\<close>

fun is_schema_error :: "error \<Rightarrow> bool" where
  "is_schema_error (InvalidChannelSelector _) = True"
| "is_schema_error (InvalidSampleRate _) = True"
| "is_schema_error (UnsupportedBitDepth _) = True"
| "is_schema_error (InvalidAdcPin _) = True"
| "is_schema_error (InvalidDinPin _) = True"
| "is_schema_error (RequiredKeyMissing _) = True"
| "is_schema_error (ExtraKeyNotAllowed _) = True"
| "is_schema_error AdcTypeNotSpecified = True"
| "is_schema_error (UnknownAdcType _) = True"
| "is_schema_error _ = False"

text \<open>Two user configurations used by the witnesses below.\<close>

definition mic_internal_34 :: raw_mic_config where
  "mic_internal_34 =
     \<lparr>raw_adc_type = Some ''internal'', raw_channel = None, raw_sample_rate = None,
      raw_bits_per_sample = None, raw_use_apll = None, raw_adc_pin = Some 34,
      raw_i2s_din_pin = None, raw_pdm = None\<rparr>"

definition cfg_internal_34 :: i2s_mic_config where
  "cfg_internal_34 =
     \<lparr>adc_type = ''internal'', channel = I2S_CHANNEL_FMT_ONLY_RIGHT, sample_rate = 16000,
      bits_per_sample = I2S_BITS_PER_SAMPLE_32BIT, use_apll = False, adc_pin = Some 34,
      i2s_din_pin = None, pdm = None\<rparr>"

definition mic_external_pdm :: raw_mic_config where
  "mic_external_pdm =
     \<lparr>raw_adc_type = Some ''external'', raw_channel = Some ''left'', raw_sample_rate = Some 48000,
      raw_bits_per_sample = Some 16, raw_use_apll = None, raw_adc_pin = None,
      raw_i2s_din_pin = Some 23, raw_pdm = Some True\<rparr>"

definition cfg_external_pdm :: i2s_mic_config where
  "cfg_external_pdm =
     \<lparr>adc_type = ''external'', channel = I2S_CHANNEL_FMT_ONLY_LEFT, sample_rate = 48000,
      bits_per_sample = I2S_BITS_PER_SAMPLE_16BIT, use_apll = False, adc_pin = None,
      i2s_din_pin = Some 23, pdm = Some True\<rparr>"

lemmas i2s_schema_defs = i2s_CONFIG_SCHEMA_def i2s_typed_schema_def internal_schema_def
  external_schema_def validate_channel_def validate_sample_rate_def validate_bits_per_sample_def
  validate_use_apll_def CHANNELS_def BITS_PER_SAMPLE_def validate_esp32_variant_def

section \<open>Behaviour of the field validators\<close>

lemma validate_channel_Inr_iff [simp]:
  "validate_channel x = Inr c \<longleftrightarrow>
     map_of CHANNELS (case x of None \<Rightarrow> ''right'' | Some s \<Rightarrow> s) = Some c"
  by (simp add: validate_channel_def optional_v_def)

lemma validate_sample_rate_Inr_iff [simp]:
  "validate_sample_rate x = Inr s \<longleftrightarrow> s = (case x of None \<Rightarrow> 16000 | Some v \<Rightarrow> v) \<and> 1 \<le> s"
  by (auto simp: validate_sample_rate_def optional_v_def)

lemma validate_bits_per_sample_Inr_iff [simp]:
  "validate_bits_per_sample x = Inr b \<longleftrightarrow>
     map_of BITS_PER_SAMPLE (case x of None \<Rightarrow> 32 | Some v \<Rightarrow> v) = Some b"
  by (simp add: validate_bits_per_sample_def optional_v_def)

lemma validate_use_apll_Inr_iff [simp]:
  "validate_use_apll x = Inr a \<longleftrightarrow> a = (case x of None \<Rightarrow> False | Some v \<Rightarrow> v)"
  by (auto simp: validate_use_apll_def optional_v_def)

lemma validate_use_apll_Inr: "\<exists>a. validate_use_apll x = Inr a"
  by simp

section \<open>The branches of the typed schema\<close>

lemma internal_schema_Inr_iff:
  "internal_schema p r = Inr c \<longleftrightarrow>
     raw_i2s_din_pin r = None \<and> raw_pdm r = None \<and> adc_type c = ''internal'' \<and>
     validate_channel (raw_channel r) = Inr (channel c) \<and>
     validate_sample_rate (raw_sample_rate r) = Inr (sample_rate c) \<and>
     validate_bits_per_sample (raw_bits_per_sample r) = Inr (bits_per_sample c) \<and>
     validate_use_apll (raw_use_apll r) = Inr (use_apll c) \<and>
     raw_adc_pin r = adc_pin c \<and> (\<exists>n. adc_pin c = Some n \<and> adc_pin_ok p (current_variant p) n) \<and>
     i2s_din_pin c = None \<and> pdm c = None"
  (is "?l \<longleftrightarrow> ?r")
proof
  assume ?l then show ?r
    unfolding internal_schema_def no_extra_keys_Inr_iff ap_v_Inr_iff required_v_def
    by (force split: option.splits)
next
  assume ?r then show ?l
    unfolding internal_schema_def no_extra_keys_Inr_iff ap_v_Inr_iff required_v_def
    by (cases c) auto
qed

lemma external_schema_Inr_iff:
  "external_schema p r = Inr c \<longleftrightarrow>
     raw_adc_pin r = None \<and> adc_type c = ''external'' \<and>
     validate_channel (raw_channel r) = Inr (channel c) \<and>
     validate_sample_rate (raw_sample_rate r) = Inr (sample_rate c) \<and>
     validate_bits_per_sample (raw_bits_per_sample r) = Inr (bits_per_sample c) \<and>
     validate_use_apll (raw_use_apll r) = Inr (use_apll c) \<and>
     adc_pin c = None \<and> raw_i2s_din_pin r = i2s_din_pin c \<and>
     (\<exists>d. i2s_din_pin c = Some d \<and> gpio_input_ok p d) \<and>
     raw_pdm r = pdm c \<and> pdm c \<noteq> None"
  (is "?l \<longleftrightarrow> ?r")
proof
  assume ?l then show ?r
    unfolding external_schema_def no_extra_keys_Inr_iff ap_v_Inr_iff required_v_def
    by (force split: option.splits)
next
  assume ?r then show ?l
    unfolding external_schema_def no_extra_keys_Inr_iff ap_v_Inr_iff required_v_def
    by (cases c) auto
qed

lemma i2s_typed_schema_Inr_iff:
  "i2s_typed_schema p r = Inr c \<longleftrightarrow>
     raw_adc_type r = Some ''internal'' \<and> internal_schema p r = Inr c \<or>
     raw_adc_type r = Some ''external'' \<and> external_schema p r = Inr c"
  by (auto simp: i2s_typed_schema_def split: option.splits)

text \<open>What the typed schema alone guarantees: the shape of the two branches.\<close>

lemma i2s_typed_schema_shape:
  assumes "i2s_typed_schema p r = Inr c"
  shows "1 \<le> sample_rate c \<and>
    (adc_type c = ''internal'' \<and> (\<exists>n. adc_pin c = Some n \<and> adc_pin_ok p (current_variant p) n) \<and>
       i2s_din_pin c = None \<and> pdm c = None \<and> raw_pdm r = None \<and> raw_adc_type r = Some ''internal''
     \<or> adc_type c = ''external'' \<and> adc_pin c = None \<and>
       (\<exists>d. i2s_din_pin c = Some d \<and> gpio_input_ok p d) \<and> pdm c = raw_pdm r \<and> raw_pdm r \<noteq> None \<and>
       raw_adc_type r = Some ''external'')"
  using assms
  unfolding i2s_typed_schema_Inr_iff internal_schema_Inr_iff external_schema_Inr_iff
  by auto

lemma validate_esp32_variant_Inr_iff:
  "validate_esp32_variant p c = Inr c' \<longleftrightarrow>
     c' = c \<and>
     (adc_type c = ''external'' \<and> (\<exists>b. pdm c = Some b \<and> (b \<longrightarrow> current_variant p \<in> set PDM_VARIANTS))
      \<or> adc_type c = ''internal'' \<and> current_variant p \<in> set INTERNAL_ADC_VARIANTS)"
  by (auto simp: validate_esp32_variant_def Let_def split: option.splits if_splits)

text \<open>The exact behaviour of \<open>CONFIG_SCHEMA\<close> on a configuration the typed schema accepted.\<close>

lemma i2s_CONFIG_SCHEMA_after_typed:
  assumes "i2s_typed_schema p r = Inr c"
  shows "i2s_CONFIG_SCHEMA p r =
    (if adc_type c = ''external'' \<and> pdm c = Some True \<and> current_variant p \<notin> set PDM_VARIANTS
     then Inl [UnsupportedModeForVariant (current_variant p)]
     else if adc_type c = ''internal'' \<and> current_variant p \<notin> set INTERNAL_ADC_VARIANTS
     then Inl [NoInternalADC (current_variant p)]
     else Inr c)"
  using i2s_typed_schema_shape [OF assms] assms
  by (auto simp: i2s_CONFIG_SCHEMA_def all_v_def validate_esp32_variant_def Let_def)


section \<open>Errors of the typed schema\<close>

lemma errs_validate_channel:
  "errs (validate_channel x) =
     (let k = (case x of None \<Rightarrow> ''right'' | Some s \<Rightarrow> s) in
      if map_of CHANNELS k = None then [InvalidChannelSelector k] else [])"
  by (auto simp: validate_channel_def optional_v_def enum_v_def Let_def split: option.splits)

lemma errs_validate_sample_rate:
  "errs (validate_sample_rate x) =
     (let v = (case x of None \<Rightarrow> 16000 | Some v \<Rightarrow> v) in if 1 \<le> v then [] else [InvalidSampleRate v])"
  by (simp add: validate_sample_rate_def optional_v_def int_range_v_def Let_def)

lemma errs_validate_bits_per_sample:
  "errs (validate_bits_per_sample x) =
     (let v = (case x of None \<Rightarrow> 32 | Some v \<Rightarrow> v) in
      if map_of BITS_PER_SAMPLE v = None then [UnsupportedBitDepth v] else [])"
  by (auto simp: validate_bits_per_sample_def optional_v_def enum_v_def Let_def split: option.splits)

lemma errs_validate_use_apll [simp]: "errs (validate_use_apll x) = []"
  by (simp add: validate_use_apll_def optional_v_def)

lemma errs_required_v: "errs (required_v e v x) = (case x of None \<Rightarrow> [e] | Some y \<Rightarrow> errs (v y))"
  by (cases x) simp_all

lemma errs_validate_adc_pin: "errs (validate_adc_pin p n) = (if adc_pin_ok p (current_variant p) n then [] else [InvalidAdcPin n])"
  by (simp add: validate_adc_pin_def)

lemma errs_internal_gpio_input_pin_number:
  "errs (internal_gpio_input_pin_number p n) = (if gpio_input_ok p n then [] else [InvalidDinPin n])"
  by (simp add: internal_gpio_input_pin_number_def)

lemmas field_errs = errs_validate_channel errs_validate_sample_rate errs_validate_bits_per_sample
  errs_required_v errs_validate_adc_pin errs_internal_gpio_input_pin_number

lemma internal_schema_errs:
  "set (errs_l (internal_schema p r)) =
     set (errs (validate_channel (raw_channel r))) \<union> set (errs (validate_sample_rate (raw_sample_rate r))) \<union>
     set (errs (validate_bits_per_sample (raw_bits_per_sample r))) \<union>
     set (errs (required_v (RequiredKeyMissing ''adc_pin'') (validate_adc_pin p) (raw_adc_pin r))) \<union>
     {ExtraKeyNotAllowed k | k. (k, True) \<in> set [(''i2s_din_pin'', raw_i2s_din_pin r \<noteq> None), (''pdm'', raw_pdm r \<noteq> None)]}"
  unfolding internal_schema_def errs_l_no_extra_keys by (simp add: Un_assoc)

lemma external_schema_errs:
  "set (errs_l (external_schema p r)) =
     set (errs (validate_channel (raw_channel r))) \<union> set (errs (validate_sample_rate (raw_sample_rate r))) \<union>
     set (errs (validate_bits_per_sample (raw_bits_per_sample r))) \<union>
     set (errs (required_v (RequiredKeyMissing ''i2s_din_pin'') (internal_gpio_input_pin_number p) (raw_i2s_din_pin r))) \<union>
     set (errs (required_v (RequiredKeyMissing ''pdm'') Inr (raw_pdm r))) \<union>
     {ExtraKeyNotAllowed k | k. (k, True) \<in> set [(''adc_pin'', raw_adc_pin r \<noteq> None)]}"
  unfolding external_schema_def errs_l_no_extra_keys by (simp add: Un_assoc)

lemma i2s_typed_schema_errs:
  "set (errs_l (i2s_typed_schema p r)) =
     (case raw_adc_type r of
        None \<Rightarrow> {AdcTypeNotSpecified}
      | Some t \<Rightarrow>
          (if t = ''internal'' then set (errs_l (internal_schema p r))
           else if t = ''external'' then set (errs_l (external_schema p r))
           else {UnknownAdcType t}))"
  by (simp add: i2s_typed_schema_def split: option.splits)

lemma field_errs_schema_errors:
  "e \<in> set (errs (validate_channel x)) \<Longrightarrow> is_schema_error e"
  "e \<in> set (errs (validate_sample_rate y)) \<Longrightarrow> is_schema_error e"
  "e \<in> set (errs (validate_bits_per_sample z)) \<Longrightarrow> is_schema_error e"
  "e \<in> set (errs (required_v (RequiredKeyMissing k) (validate_adc_pin p) n)) \<Longrightarrow> is_schema_error e"
  "e \<in> set (errs (required_v (RequiredKeyMissing k) (internal_gpio_input_pin_number p) n)) \<Longrightarrow> is_schema_error e"
  "e \<in> set (errs (required_v (RequiredKeyMissing k) Inr b)) \<Longrightarrow> is_schema_error e"
  by (auto simp: field_errs Let_def split: option.splits if_splits)

lemma i2s_typed_schema_errs_schema_errors:
  "e \<in> set (errs_l (i2s_typed_schema p r)) \<Longrightarrow> is_schema_error e"
  unfolding i2s_typed_schema_errs internal_schema_errs external_schema_errs
  by (auto split: option.splits if_splits dest: field_errs_schema_errors)

lemma i2s_typed_schema_not_Inl_Nil: "i2s_typed_schema p r \<noteq> Inl []"
  by (simp add: i2s_typed_schema_def internal_schema_def external_schema_def split: option.splits)

lemma map_of_CHANNELS_key [simp]: "map_of CHANNELS (channel_key c) = Some c"
  by (cases c) (simp_all add: CHANNELS_def channel_key_def)

lemma map_of_BITS_PER_SAMPLE_key [simp]: "map_of BITS_PER_SAMPLE (bits_key b) = Some b"
  by (cases b) (simp_all add: BITS_PER_SAMPLE_def bits_key_def)


lemma i2s_CONFIG_SCHEMA_InrD:
  assumes "i2s_CONFIG_SCHEMA p r = Inr c"
  shows "i2s_typed_schema p r = Inr c \<and> validate_esp32_variant p c = Inr c"
proof -
  from assms obtain y where y: "i2s_typed_schema p r = Inr y" "validate_esp32_variant p y = Inr c"
    by (auto simp: i2s_CONFIG_SCHEMA_def)
  then have "c = y" by (simp add: validate_esp32_variant_Inr_iff)
  with y show ?thesis by simp
qed

lemma i2s_typed_schema_errs_propagate:
  "e \<in> set (errs_l (i2s_typed_schema p r)) \<Longrightarrow> e \<in> set (errs_l (i2s_CONFIG_SCHEMA p r))"
  by (cases "i2s_typed_schema p r") (simp_all add: i2s_CONFIG_SCHEMA_def all_v_def)

lemma typed_schema_raw_of_config:
  assumes "wf_i2s_config p c"
  shows "i2s_typed_schema p (raw_of_config c) = Inr c"
  using assms
  by (auto simp: wf_i2s_config_def i2s_typed_schema_Inr_iff internal_schema_Inr_iff
      external_schema_Inr_iff raw_of_config_def)

lemma i2s_CONFIG_SCHEMA_wf_core:
  assumes "i2s_CONFIG_SCHEMA p r = Inr c"
  shows "wf_i2s_config p c"
proof -
  from i2s_CONFIG_SCHEMA_InrD [OF assms]
  have t: "i2s_typed_schema p r = Inr c" and v: "validate_esp32_variant p c = Inr c" by auto
  from i2s_typed_schema_shape [OF t] v show ?thesis
    by (auto simp: wf_i2s_config_def validate_esp32_variant_Inr_iff)
qed

section \<open>Properties of the I2S microphone schema\<close>

text \<open>
  C1. Every configuration \<open>CONFIG_SCHEMA\<close> accepts is well formed: a sample rate of at
  least 1 Hz, and either an internal-ADC configuration with a validated ADC pin on a
  variant that has an internal ADC, or an external one with a validated data pin, a PDM
  flag, and PDM only on a PDM-capable variant.
\<close>

theorem i2s_CONFIG_SCHEMA_wf:
  assumes "i2s_CONFIG_SCHEMA p r = Inr c"
  shows "wf_i2s_config p c"
  using assms by (rule i2s_CONFIG_SCHEMA_wf_core)

theorem i2s_CONFIG_SCHEMA_wf_witness:
  "i2s_CONFIG_SCHEMA (example_platform VARIANT_ESP32) mic_internal_34 = Inr cfg_internal_34 \<and>
   wf_i2s_config (example_platform VARIANT_ESP32) cfg_internal_34"
proof -
  have h: "i2s_CONFIG_SCHEMA (example_platform VARIANT_ESP32) mic_internal_34 = Inr cfg_internal_34"
    by (simp add: i2s_schema_defs validation_simps platform_defs
        mic_internal_34_def cfg_internal_34_def)
  show ?thesis using h i2s_CONFIG_SCHEMA_wf [OF h] by simp
qed


text \<open>
  C2. An external configuration that asks for PDM on a variant outside
  \<open>PDM_VARIANTS\<close>, and that passes the typed schema, is rejected with exactly the
  error \<open>"<variant> does not support PDM"\<close>.
\<close>

theorem i2s_CONFIG_SCHEMA_pdm_rejected:
  assumes "i2s_typed_schema p r = Inr c" and "raw_pdm r = Some True"
    and "current_variant p \<notin> set PDM_VARIANTS"
  shows "i2s_CONFIG_SCHEMA p r = Inl [UnsupportedModeForVariant (current_variant p)]"
proof -
  from i2s_typed_schema_shape [OF assms(1)] assms(2)
  have "adc_type c = ''external'' \<and> pdm c = Some True" by auto
  with i2s_CONFIG_SCHEMA_after_typed [OF assms(1)] assms(3) show ?thesis by simp
qed

theorem i2s_CONFIG_SCHEMA_pdm_rejected_witness:
  "i2s_typed_schema (example_platform VARIANT_ESP32C3) mic_external_pdm = Inr cfg_external_pdm \<and>
   raw_pdm mic_external_pdm = Some True \<and> VARIANT_ESP32C3 \<notin> set PDM_VARIANTS \<and>
   i2s_CONFIG_SCHEMA (example_platform VARIANT_ESP32C3) mic_external_pdm =
     Inl [UnsupportedModeForVariant VARIANT_ESP32C3]"
proof -
  have h: "i2s_typed_schema (example_platform VARIANT_ESP32C3) mic_external_pdm = Inr cfg_external_pdm"
    by (simp add: i2s_schema_defs validation_simps platform_defs mic_external_pdm_def cfg_external_pdm_def)
  have "raw_pdm mic_external_pdm = Some True" by (simp add: mic_external_pdm_def)
  moreover have "current_variant (example_platform VARIANT_ESP32C3) \<notin> set PDM_VARIANTS"
    by (simp add: example_platform_def)
  ultimately show ?thesis using h i2s_CONFIG_SCHEMA_pdm_rejected [OF h] by (simp add: example_platform_def)
qed

text \<open>
  C3. An internal-ADC configuration that passes the typed schema is rejected on every
  variant other than the classic ESP32, with \<open>"<variant> does not have an internal ADC"\<close>.
\<close>

theorem i2s_CONFIG_SCHEMA_no_internal_adc:
  assumes "i2s_typed_schema p r = Inr c" and "raw_adc_type r = Some ''internal''"
    and "current_variant p \<noteq> VARIANT_ESP32"
  shows "i2s_CONFIG_SCHEMA p r = Inl [NoInternalADC (current_variant p)]"
proof -
  from i2s_typed_schema_shape [OF assms(1)] assms(2)
  have "adc_type c = ''internal''" by auto
  with i2s_CONFIG_SCHEMA_after_typed [OF assms(1)] assms(3) show ?thesis by simp
qed

theorem i2s_CONFIG_SCHEMA_no_internal_adc_witness:
  "i2s_typed_schema (example_platform VARIANT_ESP32S3) (mic_internal_34\<lparr>raw_adc_pin := Some 1\<rparr>) =
     Inr (cfg_internal_34\<lparr>adc_pin := Some 1\<rparr>) \<and>
   i2s_CONFIG_SCHEMA (example_platform VARIANT_ESP32S3) (mic_internal_34\<lparr>raw_adc_pin := Some 1\<rparr>) =
     Inl [NoInternalADC VARIANT_ESP32S3]"
proof -
  have h: "i2s_typed_schema (example_platform VARIANT_ESP32S3) (mic_internal_34\<lparr>raw_adc_pin := Some 1\<rparr>) =
     Inr (cfg_internal_34\<lparr>adc_pin := Some 1\<rparr>)"
    by (simp add: i2s_schema_defs validation_simps platform_defs mic_internal_34_def cfg_internal_34_def)
  have "raw_adc_type (mic_internal_34\<lparr>raw_adc_pin := Some 1\<rparr>) = Some ''internal''"
    by (simp add: mic_internal_34_def)
  moreover have "current_variant (example_platform VARIANT_ESP32S3) \<noteq> VARIANT_ESP32"
    by (simp add: example_platform_def)
  ultimately show ?thesis using h i2s_CONFIG_SCHEMA_no_internal_adc [OF h] by (simp add: example_platform_def)
qed

text \<open>
  C4. Two branches of \<open>validate_esp32_variant\<close> are dead once it runs after the typed
  schema: \<open>raise NotImplementedError\<close> (the schema admits only the two known
  \<open>adc_type\<close> values) and the \<open>KeyError\<close> of \<open>config[CONF_PDM]\<close> (the external
  schema requires the key). No input makes \<open>CONFIG_SCHEMA\<close> report either.
\<close>

theorem i2s_CONFIG_SCHEMA_dead_branches:
  "NotImplementedError \<notin> set (errs_l (i2s_CONFIG_SCHEMA p r)) \<and>
   KeyError ''pdm'' \<notin> set (errs_l (i2s_CONFIG_SCHEMA p r))"
proof (cases "i2s_typed_schema p r")
  case (Inl es)
  then have "i2s_CONFIG_SCHEMA p r = Inl es" by (simp add: i2s_CONFIG_SCHEMA_def all_v_def)
  moreover have "\<forall>e \<in> set es. is_schema_error e"
    using Inl i2s_typed_schema_errs_schema_errors [of _ p r] by auto
  ultimately show ?thesis by fastforce
next
  case (Inr c)
  then show ?thesis by (simp add: i2s_CONFIG_SCHEMA_after_typed)
qed

text \<open>
  C5. The cross-field checks run only on what the typed schema accepted: whenever a key
  is missing, extra or invalid, \<open>CONFIG_SCHEMA\<close> reports the (non-empty) list of schema
  errors and no variant error. The rule order of spec section 4.1 (PDM and internal-ADC
  support first, channel, bit depth and sample rate after) is therefore not the order
  of the code.
\<close>

theorem i2s_CONFIG_SCHEMA_schema_errors_first:
  assumes "i2s_typed_schema p r = Inl es"
  shows "i2s_CONFIG_SCHEMA p r = Inl es \<and> es \<noteq> [] \<and> (\<forall>e \<in> set es. is_schema_error e)"
proof -
  have "i2s_CONFIG_SCHEMA p r = Inl es" using assms by (simp add: i2s_CONFIG_SCHEMA_def all_v_def)
  moreover have "es \<noteq> []" using assms i2s_typed_schema_not_Inl_Nil [of p r] by auto
  moreover have "\<forall>e \<in> set es. is_schema_error e"
    using assms i2s_typed_schema_errs_schema_errors [of _ p r] by auto
  ultimately show ?thesis by blast
qed

theorem i2s_CONFIG_SCHEMA_schema_errors_first_witness:
  "i2s_typed_schema (example_platform VARIANT_ESP32C3) (mic_external_pdm\<lparr>raw_bits_per_sample := Some 24\<rparr>) =
     Inl [UnsupportedBitDepth 24] \<and>
   i2s_CONFIG_SCHEMA (example_platform VARIANT_ESP32C3) (mic_external_pdm\<lparr>raw_bits_per_sample := Some 24\<rparr>) =
     Inl [UnsupportedBitDepth 24]"
proof -
  have h: "i2s_typed_schema (example_platform VARIANT_ESP32C3) (mic_external_pdm\<lparr>raw_bits_per_sample := Some 24\<rparr>) =
     Inl [UnsupportedBitDepth 24]"
    by (simp add: i2s_schema_defs validation_simps platform_defs mic_external_pdm_def)
  show ?thesis using h i2s_CONFIG_SCHEMA_schema_errors_first [OF h] by simp
qed

text \<open>
  C6. Round trip: printing a well-formed validated configuration back to a mapping and
  validating it again gives the same configuration, so \<open>CONFIG_SCHEMA\<close> rejects no
  well-formed configuration and changes none.
\<close>

theorem i2s_CONFIG_SCHEMA_roundtrip:
  assumes "wf_i2s_config p c"
  shows "i2s_CONFIG_SCHEMA p (raw_of_config c) = Inr c"
proof -
  have t: "i2s_typed_schema p (raw_of_config c) = Inr c" using assms by (rule typed_schema_raw_of_config)
  from assms show ?thesis
    unfolding i2s_CONFIG_SCHEMA_after_typed [OF t] by (auto simp: wf_i2s_config_def)
qed

theorem i2s_CONFIG_SCHEMA_roundtrip_witness:
  "wf_i2s_config (example_platform VARIANT_ESP32S3) cfg_external_pdm \<and>
   i2s_CONFIG_SCHEMA (example_platform VARIANT_ESP32S3) (raw_of_config cfg_external_pdm) = Inr cfg_external_pdm"
proof -
  have h: "wf_i2s_config (example_platform VARIANT_ESP32S3) cfg_external_pdm"
    by (auto simp: wf_i2s_config_def cfg_external_pdm_def example_platform_def)
  show ?thesis using h i2s_CONFIG_SCHEMA_roundtrip [OF h] by simp
qed

text \<open>
  C7. Defaults: with \<open>channel\<close>, \<open>sample_rate\<close>, \<open>bits_per_sample\<close> and
  \<open>use_apll\<close> left out, an accepted configuration captures the right channel at
  16000 Hz with 32-bit samples and without the APLL clock.
\<close>

theorem i2s_CONFIG_SCHEMA_defaults:
  assumes "raw_channel r = None" "raw_sample_rate r = None" "raw_bits_per_sample r = None"
    "raw_use_apll r = None" and "i2s_CONFIG_SCHEMA p r = Inr c"
  shows "channel c = I2S_CHANNEL_FMT_ONLY_RIGHT \<and> sample_rate c = 16000 \<and>
    bits_per_sample c = I2S_BITS_PER_SAMPLE_32BIT \<and> \<not> use_apll c"
proof -
  have "i2s_typed_schema p r = Inr c" using i2s_CONFIG_SCHEMA_InrD [OF assms(5)] by simp
  with assms(1-4) show ?thesis
    by (auto simp: i2s_typed_schema_Inr_iff internal_schema_Inr_iff external_schema_Inr_iff
        CHANNELS_def BITS_PER_SAMPLE_def)
qed

theorem i2s_CONFIG_SCHEMA_defaults_witness:
  "raw_channel mic_internal_34 = None \<and> raw_sample_rate mic_internal_34 = None \<and>
   raw_bits_per_sample mic_internal_34 = None \<and> raw_use_apll mic_internal_34 = None \<and>
   i2s_CONFIG_SCHEMA (example_platform VARIANT_ESP32) mic_internal_34 = Inr cfg_internal_34 \<and>
   channel cfg_internal_34 = I2S_CHANNEL_FMT_ONLY_RIGHT \<and> sample_rate cfg_internal_34 = 16000 \<and>
   bits_per_sample cfg_internal_34 = I2S_BITS_PER_SAMPLE_32BIT \<and> \<not> use_apll cfg_internal_34"
proof -
  have h: "i2s_CONFIG_SCHEMA (example_platform VARIANT_ESP32) mic_internal_34 = Inr cfg_internal_34"
    by (simp add: i2s_schema_defs validation_simps platform_defs mic_internal_34_def cfg_internal_34_def)
  have d: "raw_channel mic_internal_34 = None" "raw_sample_rate mic_internal_34 = None"
    "raw_bits_per_sample mic_internal_34 = None" "raw_use_apll mic_internal_34 = None"
    by (simp_all add: mic_internal_34_def)
  show ?thesis using h d i2s_CONFIG_SCHEMA_defaults [OF d h] by simp
qed

text \<open>
  C8. Every invalid value of a base key is reported, whatever else is wrong: a sample
  rate below 1, a bit depth other than 16 or 32 and a channel other than
  \<open>left\<close>/\<open>right\<close> each appear, with the offending value, among the errors of
  \<open>CONFIG_SCHEMA\<close> once \<open>adc_type\<close> names one of the two schemas.
\<close>

theorem i2s_CONFIG_SCHEMA_reports_bad_fields:
  assumes "raw_adc_type r = Some ''internal'' \<or> raw_adc_type r = Some ''external''"
  shows "(raw_sample_rate r = Some v \<and> v < 1 \<longrightarrow> InvalidSampleRate v \<in> set (errs_l (i2s_CONFIG_SCHEMA p r))) \<and>
    (raw_bits_per_sample r = Some b \<and> b \<notin> {16, 32} \<longrightarrow>
       UnsupportedBitDepth b \<in> set (errs_l (i2s_CONFIG_SCHEMA p r))) \<and>
    (raw_channel r = Some s \<and> s \<notin> {''left'', ''right''} \<longrightarrow>
       InvalidChannelSelector s \<in> set (errs_l (i2s_CONFIG_SCHEMA p r)))"
proof -
  have base: "e \<in> set (errs (validate_sample_rate (raw_sample_rate r))) \<union>
      set (errs (validate_bits_per_sample (raw_bits_per_sample r))) \<union>
      set (errs (validate_channel (raw_channel r))) \<Longrightarrow>
    e \<in> set (errs_l (i2s_CONFIG_SCHEMA p r))" for e
    using assms
    by (auto simp: i2s_typed_schema_errs internal_schema_errs external_schema_errs
        intro: i2s_typed_schema_errs_propagate)
  show ?thesis
    by (auto intro!: base simp: field_errs Let_def CHANNELS_def BITS_PER_SAMPLE_def)
qed

theorem i2s_CONFIG_SCHEMA_reports_bad_fields_witness:
  "InvalidSampleRate 0 \<in> set (errs_l (i2s_CONFIG_SCHEMA (example_platform VARIANT_ESP32)
      (mic_internal_34\<lparr>raw_sample_rate := Some 0\<rparr>))) \<and>
   UnsupportedBitDepth 24 \<in> set (errs_l (i2s_CONFIG_SCHEMA (example_platform VARIANT_ESP32)
      (mic_internal_34\<lparr>raw_bits_per_sample := Some 24\<rparr>))) \<and>
   InvalidChannelSelector ''LEFT'' \<in> set (errs_l (i2s_CONFIG_SCHEMA (example_platform VARIANT_ESP32)
      (mic_internal_34\<lparr>raw_channel := Some ''LEFT''\<rparr>)))"
proof -
  have a: "raw_adc_type (mic_internal_34\<lparr>raw_sample_rate := Some 0\<rparr>) = Some ''internal''"
    "raw_adc_type (mic_internal_34\<lparr>raw_bits_per_sample := Some 24\<rparr>) = Some ''internal''"
    "raw_adc_type (mic_internal_34\<lparr>raw_channel := Some ''LEFT''\<rparr>) = Some ''internal''"
    by (simp_all add: mic_internal_34_def)
  show ?thesis
    using i2s_CONFIG_SCHEMA_reports_bad_fields [where r = "mic_internal_34\<lparr>raw_sample_rate := Some 0\<rparr>"
        and v = 0 and p = "example_platform VARIANT_ESP32"]
      i2s_CONFIG_SCHEMA_reports_bad_fields [where r = "mic_internal_34\<lparr>raw_bits_per_sample := Some 24\<rparr>"
        and b = 24 and p = "example_platform VARIANT_ESP32"]
      i2s_CONFIG_SCHEMA_reports_bad_fields [where r = "mic_internal_34\<lparr>raw_channel := Some ''LEFT''\<rparr>"
        and s = "''LEFT''" and p = "example_platform VARIANT_ESP32"] a
    by simp
qed


end
