(* ===== verification/Microphone_Registration.thy ===== *)
theory Microphone_Registration
  imports Mic_Prelude
begin

text \<open>
  The code-generation interface both microphone platforms share. ESPHome's \<open>to_code\<close>
  coroutines emit C++ statements into the firmware's \<open>setup()\<close>; the model is the list
  of statements a platform emits, in emission order (\<open>cg_stmt\<close>). Both platforms end
  with the same compatibility block (i2s lines 121--129, adf lines 39--47): the
  microphone offers \<open>audio_device = {"max_channels": 1}\<close> to
  \<open>microphone.register_microphone\<close> when that function has an \<open>audio_device\<close>
  parameter, and registers without any capability exchange otherwise. This block is the
  capability offer of spec section 4.5 and its legacy fallback.
\<close>

datatype cg_stmt =
    NewPvariable
  | RegisterComponent
  | SetAdcChannel nat
  | RegisterI2sReader
  | SetGainLog2 int
  | SetupPipelineController
  | RegisterMicrophone "(string \<times> nat) list option"

definition audio_device :: "(string \<times> nat) list" where
  "audio_device = [(''max_channels'', 1)]"

text \<open>
  \<open>reg_params\<close> are the parameter names of \<open>inspect.signature(register_microphone)\<close>
  in the ESPHome version the firmware is built with.
\<close>

definition register_microphone_compat :: "string list \<Rightarrow> cg_stmt" where
  "register_microphone_compat reg_params =
     (if ''audio_device'' \<in> set reg_params
      then RegisterMicrophone (Some audio_device)
      else RegisterMicrophone None)"

fun is_register_microphone :: "cg_stmt \<Rightarrow> bool" where
  "is_register_microphone (RegisterMicrophone _) = True"
| "is_register_microphone _ = False"

text \<open>The capability a registration offers: \<open>None\<close> for the legacy interface.\<close>

fun offered_max_channels :: "cg_stmt \<Rightarrow> nat option" where
  "offered_max_channels (RegisterMicrophone (Some d)) = map_of d ''max_channels''"
| "offered_max_channels _ = None"

lemma is_register_microphone_compat [simp]: "is_register_microphone (register_microphone_compat ps)"
  by (simp add: register_microphone_compat_def)

lemma offered_max_channels_compat:
  "offered_max_channels (register_microphone_compat ps) =
     (if ''audio_device'' \<in> set ps then Some 1 else None)"
  by (simp add: register_microphone_compat_def audio_device_def)

end
