(* ===== verification/I2S_Codegen.thy ===== *)
theory I2S_Codegen
  imports I2S_Schema Microphone_Registration
begin

text \<open>
  \<open>to_code\<close> of the I2S microphone platform (\<open>i2s_audio/microphone/__init__.py\<close>
  lines 105--128), the channel/pin resolver of spec section 4.2: for the internal ADC it
  resolves the configured pin to an ADC1 channel through
  \<open>ESP32_VARIANT_ADC1_PIN_TO_CHANNEL[variant][pin_num]\<close> and emits
  \<open>set_adc_channel\<close>; for an external transducer it registers the I2S reader. Both
  paths end with the microphone registration of \<open>Microphone_Registration\<close>. A failed
  dictionary lookup is the Python \<open>KeyError\<close>, an \<open>Inl\<close> result.
  The lemmas show that every accepted configuration generates code when the ADC-pin
  validator admits only ADC1 pins, which channel is emitted, and what happens when the
  validator admits more.
\<close>

text \<open>Lines 112--114: the variant, the pin number and the ADC1 channel of the pin; a pin
  missing from the table is the \<open>KeyError\<close> of the dictionary lookup.\<close>

definition adc_channel_of :: "platform \<Rightarrow> i2s_mic_config \<Rightarrow> error + nat" where
  "adc_channel_of p config =
     (let variant = current_variant p in
      case adc_pin config of
        None \<Rightarrow> Inl (KeyError ''adc_pin'')
      | Some pin_num \<Rightarrow>
          (case adc1_pin_to_channel p variant pin_num of
             None \<Rightarrow> Inl (KeyErrorPin pin_num)
           | Some ch \<Rightarrow> Inr ch))"

definition i2s_to_code :: "platform \<Rightarrow> string list \<Rightarrow> i2s_mic_config \<Rightarrow> error + cg_stmt list" where
  "i2s_to_code p reg_params config =
     (let pre = [NewPvariable, RegisterComponent];
          post = [register_microphone_compat reg_params]
      in if adc_type config = ''internal'' then
           (case adc_channel_of p config of
              Inl e \<Rightarrow> Inl e
            | Inr ch \<Rightarrow> Inr (pre @ [SetAdcChannel ch] @ post))
         else Inr (pre @ [RegisterI2sReader] @ post))"

text \<open>The whole platform: validation, then code generation.\<close>

definition i2s_build :: "platform \<Rightarrow> string list \<Rightarrow> raw_mic_config \<Rightarrow> error list + cg_stmt list" where
  "i2s_build p reg_params r =
     (case i2s_CONFIG_SCHEMA p r of
        Inl es \<Rightarrow> Inl es
      | Inr c \<Rightarrow> (case i2s_to_code p reg_params c of Inl e \<Rightarrow> Inl [e] | Inr ss \<Rightarrow> Inr ss))"

section \<open>Lemmas\<close>

lemma i2s_to_code_external:
  "adc_type c \<noteq> ''internal'' \<Longrightarrow>
   i2s_to_code p ps c = Inr [NewPvariable, RegisterComponent, RegisterI2sReader, register_microphone_compat ps]"
  by (simp add: i2s_to_code_def adc_channel_of_def)

lemma i2s_to_code_internal:
  "adc_type c = ''internal'' \<Longrightarrow> adc_pin c = Some n \<Longrightarrow>
   i2s_to_code p ps c =
     (case adc1_pin_to_channel p (current_variant p) n of
        None \<Rightarrow> Inl (KeyErrorPin n)
      | Some ch \<Rightarrow> Inr [NewPvariable, RegisterComponent, SetAdcChannel ch, register_microphone_compat ps])"
  by (simp add: i2s_to_code_def adc_channel_of_def split: option.splits)

lemma i2s_to_code_Inr_register_last:
  "i2s_to_code p ps c = Inr ss \<Longrightarrow> ss \<noteq> [] \<and> last ss = register_microphone_compat ps \<and>
     (\<forall>s \<in> set (butlast ss). \<not> is_register_microphone s)"
  by (auto simp: i2s_to_code_def adc_channel_of_def Let_def split: if_splits option.splits)

lemma i2s_build_after_schema:
  "i2s_CONFIG_SCHEMA p r = Inr c \<Longrightarrow>
   i2s_build p ps r = (case i2s_to_code p ps c of Inl e \<Rightarrow> Inl [e] | Inr ss \<Rightarrow> Inr ss)"
  by (simp add: i2s_build_def)

lemma i2s_build_InrD:
  "i2s_build p ps r = Inr ss \<Longrightarrow> \<exists>c. i2s_CONFIG_SCHEMA p r = Inr c \<and> i2s_to_code p ps c = Inr ss"
  by (auto simp: i2s_build_def split: sum.splits)

lemma i2s_to_code_Inr_cases:
  "i2s_to_code p ps c = Inr ss \<Longrightarrow>
   (\<exists>ch. ss = [NewPvariable, RegisterComponent, SetAdcChannel ch, register_microphone_compat ps]) \<or>
   ss = [NewPvariable, RegisterComponent, RegisterI2sReader, register_microphone_compat ps]"
  by (auto simp: i2s_to_code_def adc_channel_of_def Let_def split: if_splits option.splits)

lemma scenario_internal_34_schema:
  "i2s_CONFIG_SCHEMA (example_platform VARIANT_ESP32) mic_internal_34 = Inr cfg_internal_34"
  by (simp add: i2s_schema_defs validation_simps platform_defs mic_internal_34_def cfg_internal_34_def)

section \<open>Properties of the I2S code generator\<close>

text \<open>
  C9. When the ADC-pin validator admits only ADC1 pins, every configuration that
  \<open>CONFIG_SCHEMA\<close> accepts generates code: \<open>to_code\<close> raises no \<open>KeyError\<close>.
\<close>

theorem i2s_build_accepted:
  assumes "adc1_only p" and "i2s_CONFIG_SCHEMA p r = Inr c"
  shows "\<exists>ss. i2s_to_code p ps c = Inr ss \<and> i2s_build p ps r = Inr ss"
proof -
  have wf: "wf_i2s_config p c" using assms(2) by (rule i2s_CONFIG_SCHEMA_wf_core)
  show ?thesis
  proof (cases "adc_type c = ''internal''")
    case True
    with wf obtain n where n: "adc_pin c = Some n" "adc_pin_ok p (current_variant p) n"
      by (auto simp: wf_i2s_config_def)
    with assms(1) obtain ch where "adc1_pin_to_channel p (current_variant p) n = Some ch"
      by (blast dest: adc1_onlyD)
    with True n assms(2) show ?thesis by (simp add: i2s_to_code_internal i2s_build_after_schema)
  next
    case False
    with assms(2) show ?thesis by (simp add: i2s_to_code_external i2s_build_after_schema)
  qed
qed


theorem i2s_build_accepted_witness:
  "adc1_only (example_platform VARIANT_ESP32) \<and>
   i2s_CONFIG_SCHEMA (example_platform VARIANT_ESP32) mic_internal_34 = Inr cfg_internal_34 \<and>
   (\<exists>ss. i2s_to_code (example_platform VARIANT_ESP32) [] cfg_internal_34 = Inr ss \<and>
         i2s_build (example_platform VARIANT_ESP32) [] mic_internal_34 = Inr ss)"
  using i2s_build_accepted [OF adc1_only_example_platform scenario_internal_34_schema]
    adc1_only_example_platform scenario_internal_34_schema
  by blast

text \<open>
  C10. The channel/pin resolver: for an accepted internal-ADC configuration whose pin the
  variant's ADC1 table maps to channel \<open>ch\<close>, the generated code creates the
  component, registers it, sets ADC channel \<open>ch\<close> and registers the microphone, in this
  order. (Spec section 8: pin 34 of the classic ESP32 is channel 6.)
\<close>

theorem i2s_build_resolves_adc_channel:
  assumes "i2s_CONFIG_SCHEMA p r = Inr c" and "adc_type c = ''internal''"
    and "adc_pin c = Some n" and "adc1_pin_to_channel p (current_variant p) n = Some ch"
  shows "i2s_build p ps r =
    Inr [NewPvariable, RegisterComponent, SetAdcChannel ch, register_microphone_compat ps]"
  using assms by (simp add: i2s_build_after_schema i2s_to_code_internal)

theorem i2s_build_resolves_adc_channel_witness:
  "i2s_build (example_platform VARIANT_ESP32) [''var'', ''config'', ''audio_device''] mic_internal_34 =
     Inr [NewPvariable, RegisterComponent, SetAdcChannel 6, RegisterMicrophone (Some [(''max_channels'', 1)])]"
proof -
  have t: "adc_type cfg_internal_34 = ''internal''" "adc_pin cfg_internal_34 = Some 34"
    by (simp_all add: cfg_internal_34_def)
  have ch: "adc1_pin_to_channel (example_platform VARIANT_ESP32) (current_variant (example_platform VARIANT_ESP32)) 34 = Some 6"
    by (simp add: platform_defs)
  show ?thesis
    using i2s_build_resolves_adc_channel [OF scenario_internal_34_schema t ch]
    by (simp add: register_microphone_compat_def audio_device_def)
qed

text \<open>
  C11. \<open>to_code\<close> indexes only the ADC1 table. If the ADC-pin validator accepts a pin
  that is not in it (ESPHome versions whose \<open>validate_adc_pin\<close> also admits ADC2
  pins), the configuration validates and code generation fails with a \<open>KeyError\<close> on
  that pin.
\<close>

theorem i2s_build_non_adc1_pin_keyerror:
  assumes "i2s_CONFIG_SCHEMA p r = Inr c" and "adc_pin c = Some n"
    and "adc1_pin_to_channel p (current_variant p) n = None"
  shows "i2s_build p ps r = Inl [KeyErrorPin n]"
proof -
  have "adc_type c = ''internal''"
    using i2s_CONFIG_SCHEMA_wf_core [OF assms(1)] assms(2) by (auto simp: wf_i2s_config_def)
  with assms show ?thesis by (simp add: i2s_build_after_schema i2s_to_code_internal)
qed

theorem i2s_build_non_adc1_pin_keyerror_witness:
  "i2s_CONFIG_SCHEMA adc2_platform (mic_internal_34\<lparr>raw_adc_pin := Some 4\<rparr>) = Inr (cfg_internal_34\<lparr>adc_pin := Some 4\<rparr>) \<and>
   i2s_build adc2_platform [] (mic_internal_34\<lparr>raw_adc_pin := Some 4\<rparr>) = Inl [KeyErrorPin 4]"
proof -
  have h: "i2s_CONFIG_SCHEMA adc2_platform (mic_internal_34\<lparr>raw_adc_pin := Some 4\<rparr>) = Inr (cfg_internal_34\<lparr>adc_pin := Some 4\<rparr>)"
    by (simp add: i2s_schema_defs validation_simps platform_defs mic_internal_34_def cfg_internal_34_def)
  have n: "adc_pin (cfg_internal_34\<lparr>adc_pin := Some 4\<rparr>) = Some 4" by simp
  have k: "adc1_pin_to_channel adc2_platform (current_variant adc2_platform) 4 = None"
    by (simp add: platform_defs)
  show ?thesis using h i2s_build_non_adc1_pin_keyerror [OF h n k] by simp
qed

text \<open>
  C12. Registration: generated code registers the microphone exactly once, as its last
  statement; the registration offers \<open>max_channels = 1\<close> when
  \<open>register_microphone\<close> takes an \<open>audio_device\<close> argument and no capability at all
  on the legacy interface.
\<close>

theorem i2s_build_registers_once:
  assumes "i2s_build p ps r = Inr ss"
  shows "filter is_register_microphone ss = [register_microphone_compat ps] \<and>
    last ss = register_microphone_compat ps \<and>
    offered_max_channels (last ss) = (if ''audio_device'' \<in> set ps then Some 1 else None)"
proof -
  from i2s_build_InrD [OF assms] obtain c where "i2s_to_code p ps c = Inr ss" by blast
  then show ?thesis
    by (auto dest!: i2s_to_code_Inr_cases simp: offered_max_channels_compat)
qed

theorem i2s_build_registers_once_witness:
  "i2s_build (example_platform VARIANT_ESP32) [''var'', ''config''] mic_internal_34 =
     Inr [NewPvariable, RegisterComponent, SetAdcChannel 6, RegisterMicrophone None] \<and>
   filter is_register_microphone [NewPvariable, RegisterComponent, SetAdcChannel 6, RegisterMicrophone None] =
     [RegisterMicrophone None] \<and>
   offered_max_channels (RegisterMicrophone None) = None"
proof -
  have h: "i2s_build (example_platform VARIANT_ESP32) [''var'', ''config''] mic_internal_34 =
     Inr [NewPvariable, RegisterComponent, SetAdcChannel 6, RegisterMicrophone None]"
    unfolding i2s_build_after_schema [OF scenario_internal_34_schema]
    by (simp add: i2s_to_code_def adc_channel_of_def cfg_internal_34_def platform_defs register_microphone_compat_def)
  show ?thesis using h i2s_build_registers_once [OF h] by (simp add: register_microphone_compat_def)
qed

text \<open>
  C35. For the internal ADC, the statements generated do not depend on the stream settings
  the schema validated: two configurations that differ only in channel, sample rate, bit
  depth and APLL use generate the same code. Only the ADC channel of the pin reaches the
  C++ object; spec section 4.3 has the engine start with the resolved sample rate and bit
  depth.
\<close>

theorem i2s_internal_codegen_ignores_stream_settings:
  assumes "adc_type c = ''internal''"
  shows "i2s_to_code p ps (c\<lparr>channel := ch, sample_rate := sr, bits_per_sample := b, use_apll := a\<rparr>) =
    i2s_to_code p ps c"
  using assms by (simp add: i2s_to_code_def adc_channel_of_def)

theorem i2s_internal_codegen_ignores_stream_settings_witness:
  "i2s_to_code (example_platform VARIANT_ESP32) [''audio_device'']
     (cfg_internal_34\<lparr>channel := I2S_CHANNEL_FMT_ONLY_LEFT, sample_rate := 48000,
        bits_per_sample := I2S_BITS_PER_SAMPLE_16BIT, use_apll := True\<rparr>) =
   Inr [NewPvariable, RegisterComponent, SetAdcChannel 6, RegisterMicrophone (Some [(''max_channels'', 1)])]"
proof -
  have i: "adc_type cfg_internal_34 = ''internal''" by (simp add: cfg_internal_34_def)
  have c: "i2s_to_code (example_platform VARIANT_ESP32) [''audio_device''] cfg_internal_34 =
    Inr [NewPvariable, RegisterComponent, SetAdcChannel 6, RegisterMicrophone (Some [(''max_channels'', 1)])]"
    by (simp add: i2s_to_code_def adc_channel_of_def cfg_internal_34_def platform_defs
        register_microphone_compat_def audio_device_def)
  from i2s_internal_codegen_ignores_stream_settings [OF i, where p = "example_platform VARIANT_ESP32"
      and ps = "[''audio_device'']" and ch = I2S_CHANNEL_FMT_ONLY_LEFT and sr = 48000
      and b = I2S_BITS_PER_SAMPLE_16BIT and a = True] c
  show ?thesis by simp
qed

end
