(* ===== verification/ADF_Microphone.thy ===== *)
theory ADF_Microphone
  imports Microphone_Registration
begin

text \<open>
  The ADF-pipeline microphone platform, \<open>src/esphome/components/adf_pipeline/microphone/__init__.py\<close>:
  its schema adds \<open>gain_log2\<close> (an integer in 0..7, default 0) to the microphone and
  pipeline-controller schemas (lines 25--30), and its \<open>to_code\<close> (lines 34--47) creates
  the component, hands the gain to the C++ object before registering it, sets up the
  pipeline controller and registers the microphone. The microphone and pipeline
  controller keys belong to other components and are not modelled. The lemmas give the
  schema's behaviour on every input and show that the gain handed to the runtime
  normaliser is within the range it accepts.
\<close>

record raw_adf_config =
  raw_gain_log2 :: "int option"

record adf_mic_config =
  gain_log2 :: int

definition validate_gain_log2 :: "int option \<Rightarrow> error + int" where
  "validate_gain_log2 = optional_v 0 (int_range_v InvalidGain (Some 0) (Some 7))"

definition adf_CONFIG_SCHEMA :: "raw_adf_config \<Rightarrow> adf_mic_config validated" where
  "adf_CONFIG_SCHEMA r = ap_v (Inr (\<lambda>g. \<lparr>gain_log2 = g\<rparr>)) (validate_gain_log2 (raw_gain_log2 r))"

text \<open>The platform's own copy of the registration (lines 39--47): the capability
  \<open>audio_device = {"max_channels": 1}\<close>, passed only to a \<open>register_microphone\<close> that has
  the parameter.\<close>

definition adf_audio_device :: "(string \<times> nat) list" where
  "adf_audio_device = [(''max_channels'', 1)]"

definition adf_register_microphone :: "string list \<Rightarrow> cg_stmt" where
  "adf_register_microphone reg_params =
     (if ''audio_device'' \<in> set reg_params
      then RegisterMicrophone (Some adf_audio_device)
      else RegisterMicrophone None)"

definition adf_to_code :: "string list \<Rightarrow> adf_mic_config \<Rightarrow> cg_stmt list" where
  "adf_to_code reg_params config =
     [NewPvariable, SetGainLog2 (gain_log2 config), RegisterComponent, SetupPipelineController,
      adf_register_microphone reg_params]"

definition adf_build :: "string list \<Rightarrow> raw_adf_config \<Rightarrow> error list + cg_stmt list" where
  "adf_build reg_params r =
     (case adf_CONFIG_SCHEMA r of Inl es \<Rightarrow> Inl es | Inr c \<Rightarrow> Inr (adf_to_code reg_params c))"

section \<open>Lemmas\<close>

text \<open>The two platforms register the same capability.\<close>

lemma adf_register_microphone_compat [simp]: "adf_register_microphone ps = register_microphone_compat ps"
  by (simp add: adf_register_microphone_def register_microphone_compat_def adf_audio_device_def
      audio_device_def)

lemma validate_gain_log2_eq:
  "validate_gain_log2 x =
     (let g = (case x of None \<Rightarrow> 0 | Some v \<Rightarrow> v) in
      if 0 \<le> g \<and> g \<le> 7 then Inr g else Inl (InvalidGain g))"
  by (simp add: validate_gain_log2_def optional_v_def int_range_v_def Let_def)

lemma adf_CONFIG_SCHEMA_eq:
  "adf_CONFIG_SCHEMA r =
     (let g = (case raw_gain_log2 r of None \<Rightarrow> 0 | Some v \<Rightarrow> v) in
      if 0 \<le> g \<and> g \<le> 7 then Inr \<lparr>gain_log2 = g\<rparr> else Inl [InvalidGain g])"
  by (simp add: adf_CONFIG_SCHEMA_def validate_gain_log2_eq Let_def)

section \<open>Properties of the ADF microphone platform\<close>

text \<open>
  The ADF schema on every input: the gain defaults to 0, a value in 0..7 is
  accepted as it is, any other value is rejected with exactly one \<open>InvalidGain\<close>
  error naming it.
\<close>

theorem adf_CONFIG_SCHEMA_gain:
  "adf_CONFIG_SCHEMA \<lparr>raw_gain_log2 = None\<rparr> = Inr \<lparr>gain_log2 = 0\<rparr> \<and>
   adf_CONFIG_SCHEMA \<lparr>raw_gain_log2 = Some g\<rparr> =
     (if 0 \<le> g \<and> g \<le> 7 then Inr \<lparr>gain_log2 = g\<rparr> else Inl [InvalidGain g])"
  by (simp add: adf_CONFIG_SCHEMA_eq)

text \<open>
  C14. Whatever the user wrote, generated ADF code sets a gain in 0..7, the range of the
  runtime shift-with-saturation gain, and does so before the component is registered and
  the pipeline set up; the microphone is registered once, last.
\<close>

theorem adf_build_gain_bounds:
  assumes "adf_build ps r = Inr ss"
  shows "\<exists>g. 0 \<le> g \<and> g \<le> 7 \<and>
    ss = [NewPvariable, SetGainLog2 g, RegisterComponent, SetupPipelineController,
          register_microphone_compat ps]"
  using assms
  by (auto simp: adf_build_def adf_to_code_def adf_CONFIG_SCHEMA_eq Let_def
      split: sum.splits if_splits)

theorem adf_build_gain_bounds_witness:
  "adf_build [''var'', ''config'', ''audio_device''] \<lparr>raw_gain_log2 = Some 3\<rparr> =
     Inr [NewPvariable, SetGainLog2 3, RegisterComponent, SetupPipelineController,
          RegisterMicrophone (Some [(''max_channels'', 1)])] \<and>
   (\<exists>g. 0 \<le> g \<and> g \<le> 7 \<and>
      [NewPvariable, SetGainLog2 3, RegisterComponent, SetupPipelineController,
       RegisterMicrophone (Some [(''max_channels'', 1)])] =
      [NewPvariable, SetGainLog2 g, RegisterComponent, SetupPipelineController,
       register_microphone_compat [''var'', ''config'', ''audio_device'']])"
proof -
  have h: "adf_build [''var'', ''config'', ''audio_device''] \<lparr>raw_gain_log2 = Some 3\<rparr> =
     Inr [NewPvariable, SetGainLog2 3, RegisterComponent, SetupPipelineController,
          RegisterMicrophone (Some [(''max_channels'', 1)])]"
    by (simp add: adf_build_def adf_CONFIG_SCHEMA_eq adf_to_code_def register_microphone_compat_def
        audio_device_def)
  show ?thesis using h adf_build_gain_bounds [OF h] by simp
qed

end
