(* ===== verification/Capability.thy ===== *)
theory Capability
  imports I2S_Codegen ADF_Microphone
begin

text \<open>
  The contracts of spec sections 4.1, 4.2 and 4.5, stated over the spec's own data model,
  and the proof that the code implements them. The spec's \<open>AcquisitionConfig\<close> is
  \<open>acquisition_config\<close>; \<open>resolve\<close> is the channel/pin resolver, \<open>capability_validate\<close>
  the validator with its five rules in the spec's order, and \<open>negotiate\<close> the
  capability negotiator with its legacy default. \<open>acq_of_raw\<close> reads a user mapping as
  the spec's configuration; it is partial: it describes the mappings whose keys suit their
  \<open>adc_type\<close> and whose I2S channel and data pin are valid, the checks the code makes
  that the spec's rules do not mention.
\<close>

datatype acq_mode = Internal | External

datatype selector = PinSel nat | ChannelSel string

datatype concrete_channel = AdcChannel nat | I2sChannel i2s_channel_fmt_t

record acquisition_config =
  acq_mode :: acq_mode
  acq_pdm :: bool
  acq_selector :: selector
  acq_bit_depth :: int
  acq_sample_rate :: int

text \<open>Spec 4.2: a pin for the internal ADC, a logical channel name for an external one.\<close>

fun resolve :: "platform \<Rightarrow> acq_mode \<Rightarrow> selector \<Rightarrow> error + concrete_channel" where
  "resolve p Internal (PinSel n) =
     (case adc1_pin_to_channel p (current_variant p) n of
        None \<Rightarrow> Inl (InvalidPinSelector n)
      | Some ch \<Rightarrow> Inr (AdcChannel ch))"
| "resolve p External (ChannelSel s) =
     (case map_of CHANNELS s of
        None \<Rightarrow> Inl (InvalidChannelSelector s)
      | Some c \<Rightarrow> Inr (I2sChannel c))"
| "resolve p Internal (ChannelSel s) = Inl (InvalidChannelSelector s)"
| "resolve p External (PinSel n) = Inl (InvalidPinSelector n)"

text \<open>Spec 4.1: the rules in their fixed order, the first failing one wins.\<close>

definition capability_validate :: "platform \<Rightarrow> acquisition_config \<Rightarrow> error + concrete_channel" where
  "capability_validate p a =
     (let v = current_variant p in
      if acq_mode a = External \<and> acq_pdm a \<and> v \<notin> set PDM_VARIANTS then Inl (UnsupportedModeForVariant v)
      else if acq_mode a = Internal \<and> v \<notin> set INTERNAL_ADC_VARIANTS then Inl (NoInternalADC v)
      else (case resolve p (acq_mode a) (acq_selector a) of
              Inl e \<Rightarrow> Inl e
            | Inr ch \<Rightarrow>
                if acq_bit_depth a \<notin> {16, 32} then Inl (UnsupportedBitDepth (acq_bit_depth a))
                else if acq_sample_rate a < 1 then Inl (InvalidSampleRate (acq_sample_rate a))
                else Inr ch))"

text \<open>The spec's configuration a user mapping denotes, when it denotes one.\<close>

definition channel_or_default :: "raw_mic_config \<Rightarrow> string" where
  "channel_or_default r = (case raw_channel r of None \<Rightarrow> ''right'' | Some s \<Rightarrow> s)"

definition bits_or_default :: "raw_mic_config \<Rightarrow> int" where
  "bits_or_default r = (case raw_bits_per_sample r of None \<Rightarrow> 32 | Some b \<Rightarrow> b)"

definition rate_or_default :: "raw_mic_config \<Rightarrow> int" where
  "rate_or_default r = (case raw_sample_rate r of None \<Rightarrow> 16000 | Some s \<Rightarrow> s)"

definition acq_of_raw :: "platform \<Rightarrow> raw_mic_config \<Rightarrow> acquisition_config option" where
  "acq_of_raw p r =
     (let ch = channel_or_default r; bits = bits_or_default r; rate = rate_or_default r
      in case raw_adc_type r of
           Some t \<Rightarrow>
             if t = ''internal'' then
               (case raw_adc_pin r of
                  Some n \<Rightarrow>
                    if raw_i2s_din_pin r = None \<and> raw_pdm r = None \<and> map_of CHANNELS ch \<noteq> None
                    then Some \<lparr>acq_mode = Internal, acq_pdm = False, acq_selector = PinSel n,
                               acq_bit_depth = bits, acq_sample_rate = rate\<rparr>
                    else None
                | None \<Rightarrow> None)
             else if t = ''external'' then
               (case (raw_i2s_din_pin r, raw_pdm r) of
                  (Some d, Some m) \<Rightarrow>
                    if raw_adc_pin r = None \<and> gpio_input_ok p d
                    then Some \<lparr>acq_mode = External, acq_pdm = m, acq_selector = ChannelSel ch,
                               acq_bit_depth = bits, acq_sample_rate = rate\<rparr>
                    else None
                | _ \<Rightarrow> None)
             else None
         | None \<Rightarrow> None)"

section \<open>Capability negotiation (spec 4.5)\<close>

record capability_offer =
  offer_max_channels :: nat

text \<open>Every acquisition mode of this design is single-channel.\<close>

definition mic_offer :: capability_offer where
  "mic_offer = \<lparr>offer_max_channels = 1\<rparr>"

text \<open>What a registration offers the consumer; the legacy registration offers the default.\<close>

definition offer_of_registration :: "cg_stmt \<Rightarrow> capability_offer" where
  "offer_of_registration s =
     (case offered_max_channels s of None \<Rightarrow> mic_offer | Some n \<Rightarrow> \<lparr>offer_max_channels = n\<rparr>)"

definition negotiate :: "capability_offer \<Rightarrow> nat option \<Rightarrow> error + nat" where
  "negotiate offer req =
     (case req of
        None \<Rightarrow> Inr (offer_max_channels offer)
      | Some n \<Rightarrow> if n \<le> offer_max_channels offer then Inr n else Inl CapabilityMismatch)"

section \<open>Lemmas\<close>

lemma acq_of_raw_SomeE:
  assumes "acq_of_raw p r = Some a"
  obtains (int) n where "raw_adc_type r = Some ''internal''" "raw_adc_pin r = Some n"
      "raw_i2s_din_pin r = None" "raw_pdm r = None" "map_of CHANNELS (channel_or_default r) \<noteq> None"
      "a = \<lparr>acq_mode = Internal, acq_pdm = False, acq_selector = PinSel n,
            acq_bit_depth = bits_or_default r, acq_sample_rate = rate_or_default r\<rparr>"
  | (ext) d m where "raw_adc_type r = Some ''external''" "raw_i2s_din_pin r = Some d"
      "raw_pdm r = Some m" "raw_adc_pin r = None" "gpio_input_ok p d"
      "a = \<lparr>acq_mode = External, acq_pdm = m, acq_selector = ChannelSel (channel_or_default r),
            acq_bit_depth = bits_or_default r, acq_sample_rate = rate_or_default r\<rparr>"
  using assms
  by (auto simp: acq_of_raw_def Let_def split: option.splits if_splits)

lemma validate_channel_default: "validate_channel (raw_channel r) = enum_v InvalidChannelSelector CHANNELS (channel_or_default r)"
  by (cases "raw_channel r") (simp_all add: validate_channel_def channel_or_default_def)

lemma validate_bits_default:
  "validate_bits_per_sample (raw_bits_per_sample r) = enum_v UnsupportedBitDepth BITS_PER_SAMPLE (bits_or_default r)"
  by (cases "raw_bits_per_sample r") (simp_all add: validate_bits_per_sample_def bits_or_default_def)

lemma validate_rate_default:
  "validate_sample_rate (raw_sample_rate r) = int_range_v InvalidSampleRate (Some 1) None (rate_or_default r)"
  by (cases "raw_sample_rate r") (simp_all add: validate_sample_rate_def rate_or_default_def)

lemma map_of_BITS_PER_SAMPLE_dom: "map_of BITS_PER_SAMPLE b \<noteq> None \<longleftrightarrow> b \<in> {16, 32}"
  by (auto simp: BITS_PER_SAMPLE_def)

lemma map_of_BITS_PER_SAMPLE_SomeD: "map_of BITS_PER_SAMPLE b = Some x \<Longrightarrow> b \<in> {16, 32}"
  by (auto simp: BITS_PER_SAMPLE_def split: if_splits)

lemma capability_validate_Inr_iff:
  "capability_validate p a = Inr x \<longleftrightarrow>
     \<not> (acq_mode a = External \<and> acq_pdm a \<and> current_variant p \<notin> set PDM_VARIANTS) \<and>
     \<not> (acq_mode a = Internal \<and> current_variant p \<notin> set INTERNAL_ADC_VARIANTS) \<and>
     resolve p (acq_mode a) (acq_selector a) = Inr x \<and>
     acq_bit_depth a \<in> {16, 32} \<and> 1 \<le> acq_sample_rate a"
  by (auto simp: capability_validate_def Let_def split: sum.splits if_splits)

lemma resolve_Inr_AdcChannel:
  "resolve p m sel = Inr (AdcChannel ch) \<longleftrightarrow>
     (\<exists>n. m = Internal \<and> sel = PinSel n \<and> adc1_pin_to_channel p (current_variant p) n = Some ch)"
  by (cases "(p, m, sel)" rule: resolve.cases) (auto split: option.splits)

lemma resolve_Inr_I2sChannel:
  "resolve p m sel = Inr (I2sChannel c) \<longleftrightarrow>
     (\<exists>s. m = External \<and> sel = ChannelSel s \<and> map_of CHANNELS s = Some c)"
  by (cases "(p, m, sel)" rule: resolve.cases) (auto split: option.splits)

text \<open>Spec acceptance on the internal ADC gives the code's statements for the same channel.\<close>

lemma code_of_spec_adc_channel:
  assumes "adc1_exact p" and "acq_of_raw p r = Some a"
    and "capability_validate p a = Inr (AdcChannel ch)"
  shows "i2s_build p ps r = Inr [NewPvariable, RegisterComponent, SetAdcChannel ch, register_microphone_compat ps]"
  using assms(2)
proof (cases rule: acq_of_raw_SomeE)
  case (int n)
  from assms(3) int have v: "current_variant p \<in> set INTERNAL_ADC_VARIANTS"
    and ch: "adc1_pin_to_channel p (current_variant p) n = Some ch"
    and b: "bits_or_default r \<in> {16, 32}" and rt: "1 \<le> rate_or_default r"
    by (auto simp: capability_validate_Inr_iff split: option.splits)
  from int obtain c0 where c0: "map_of CHANNELS (channel_or_default r) = Some c0" by auto
  from b obtain b0 where b0: "map_of BITS_PER_SAMPLE (bits_or_default r) = Some b0"
    using map_of_BITS_PER_SAMPLE_dom by blast
  from assms(1) ch have ok: "adc_pin_ok p (current_variant p) n" by (simp add: adc1_exact_def)
  define cfg where "cfg = \<lparr>adc_type = ''internal'', channel = c0, sample_rate = rate_or_default r,
      bits_per_sample = b0, use_apll = (case raw_use_apll r of None \<Rightarrow> False | Some u \<Rightarrow> u),
      adc_pin = Some n, i2s_din_pin = None, pdm = None\<rparr>"
  have "internal_schema p r = Inr cfg"
    using int c0 b0 rt ok
    by (simp add: internal_schema_Inr_iff cfg_def validate_channel_default validate_bits_default
        validate_rate_default)
  with int have t: "i2s_typed_schema p r = Inr cfg" by (simp add: i2s_typed_schema_Inr_iff)
  with v have "i2s_CONFIG_SCHEMA p r = Inr cfg" by (simp add: i2s_CONFIG_SCHEMA_after_typed cfg_def)
  with ch show ?thesis by (simp add: i2s_build_after_schema i2s_to_code_internal cfg_def)
next
  case (ext d m)
  with assms(3) show ?thesis by (simp add: capability_validate_Inr_iff split: option.splits)
qed

text \<open>Spec acceptance of an external transducer gives the code's I2S-reader statements.\<close>

lemma code_of_spec_i2s_channel:
  assumes "acq_of_raw p r = Some a" and "capability_validate p a = Inr (I2sChannel c)"
  shows "\<exists>cfg. i2s_CONFIG_SCHEMA p r = Inr cfg \<and> channel cfg = c \<and>
    i2s_build p ps r = Inr [NewPvariable, RegisterComponent, RegisterI2sReader, register_microphone_compat ps]"
  using assms(1)
proof (cases rule: acq_of_raw_SomeE)
  case (int n)
  with assms(2) show ?thesis by (simp add: capability_validate_Inr_iff split: option.splits)
next
  case (ext d m)
  from assms(2) ext have v: "m \<longrightarrow> current_variant p \<in> set PDM_VARIANTS"
    and c: "map_of CHANNELS (channel_or_default r) = Some c"
    and b: "bits_or_default r \<in> {16, 32}" and rt: "1 \<le> rate_or_default r"
    by (auto simp: capability_validate_Inr_iff split: option.splits)
  from b obtain b0 where b0: "map_of BITS_PER_SAMPLE (bits_or_default r) = Some b0"
    using map_of_BITS_PER_SAMPLE_dom by blast
  define cfg where "cfg = \<lparr>adc_type = ''external'', channel = c, sample_rate = rate_or_default r,
      bits_per_sample = b0, use_apll = (case raw_use_apll r of None \<Rightarrow> False | Some u \<Rightarrow> u),
      adc_pin = None, i2s_din_pin = Some d, pdm = Some m\<rparr>"
  have "external_schema p r = Inr cfg"
    using ext c b0 rt
    by (simp add: external_schema_Inr_iff cfg_def validate_channel_default validate_bits_default
        validate_rate_default)
  with ext have t: "i2s_typed_schema p r = Inr cfg" by (simp add: i2s_typed_schema_Inr_iff)
  with v have "i2s_CONFIG_SCHEMA p r = Inr cfg"
    by (cases m) (auto simp: i2s_CONFIG_SCHEMA_after_typed cfg_def)
  then show ?thesis by (simp add: i2s_build_after_schema i2s_to_code_external cfg_def)
qed

text \<open>Code acceptance gives spec acceptance.\<close>

lemma spec_of_code_accepts:
  assumes "acq_of_raw p r = Some a" and "i2s_build p ps r = Inr ss"
  shows "\<exists>x. capability_validate p a = Inr x"
proof -
  from i2s_build_InrD [OF assms(2)] obtain c
    where cs: "i2s_CONFIG_SCHEMA p r = Inr c" and tc: "i2s_to_code p ps c = Inr ss" by blast
  from i2s_CONFIG_SCHEMA_InrD [OF cs]
  have t: "i2s_typed_schema p r = Inr c" and v: "validate_esp32_variant p c = Inr c" by auto
  from assms(1) show ?thesis
  proof (cases rule: acq_of_raw_SomeE)
    case (int n)
    with t have i: "internal_schema p r = Inr c" by (simp add: i2s_typed_schema_def)
    then have f: "map_of BITS_PER_SAMPLE (bits_or_default r) \<noteq> None" "1 \<le> rate_or_default r"
      "adc_type c = ''internal''" "adc_pin c = Some n"
      using int by (auto simp: internal_schema_Inr_iff validate_bits_default validate_rate_default)
    from tc f obtain ch where "adc1_pin_to_channel p (current_variant p) n = Some ch"
      by (auto simp: i2s_to_code_internal split: option.splits)
    with int f v show ?thesis
      by (auto simp: capability_validate_Inr_iff validate_esp32_variant_Inr_iff
          dest: map_of_BITS_PER_SAMPLE_SomeD)
  next
    case (ext d m)
    with t have e: "external_schema p r = Inr c" by (simp add: i2s_typed_schema_def)
    then have f: "map_of BITS_PER_SAMPLE (bits_or_default r) \<noteq> None" "1 \<le> rate_or_default r"
      "map_of CHANNELS (channel_or_default r) = Some (channel c)" "adc_type c = ''external''"
      "pdm c = Some m"
      using ext by (auto simp: external_schema_Inr_iff validate_bits_default validate_rate_default
          validate_channel_default)
    with ext v show ?thesis
      by (auto simp: capability_validate_Inr_iff validate_esp32_variant_Inr_iff
          dest: map_of_BITS_PER_SAMPLE_SomeD)
  qed
qed

lemma adf_build_InrD:
  "adf_build ps r = Inr ss \<Longrightarrow> last ss = register_microphone_compat ps"
  by (auto simp: adf_build_def adf_to_code_def split: sum.splits)

lemma negotiate_compat:
  "negotiate (offer_of_registration (register_microphone_compat ps)) req =
     (case req of None \<Rightarrow> Inr 1 | Some n \<Rightarrow> if n \<le> 1 then Inr n else Inl CapabilityMismatch)"
  by (simp add: negotiate_def offer_of_registration_def offered_max_channels_compat mic_offer_def
      split: option.splits)

lemma scenario_internal_34_acq:
  "acq_of_raw (example_platform VARIANT_ESP32) mic_internal_34 =
     Some \<lparr>acq_mode = Internal, acq_pdm = False, acq_selector = PinSel 34,
           acq_bit_depth = 32, acq_sample_rate = 16000\<rparr>"
  by (simp add: acq_of_raw_def mic_internal_34_def channel_or_default_def bits_or_default_def
      rate_or_default_def CHANNELS_def)

section \<open>Properties: the code implements the spec's contracts\<close>

text \<open>
  C15. Refinement of the capability validator and the channel/pin resolver. For every
  user mapping the spec describes, and an ADC-pin validator that admits exactly the ADC1
  pins: if the spec's validator rejects the configuration, so does the code (schema or
  code generation); if it resolves an internal-ADC configuration to ADC channel
  \<open>ch\<close>, the generated code sets channel \<open>ch\<close>; if it resolves an external one
  to an I2S slot, the code accepts the configuration with that slot and registers an
  I2S reader.
\<close>

theorem i2s_build_refines_capability_validate:
  assumes "adc1_exact p" and "acq_of_raw p r = Some a"
  shows "case capability_validate p a of
      Inl _ \<Rightarrow> isl (i2s_build p ps r)
    | Inr (AdcChannel ch) \<Rightarrow>
        i2s_build p ps r = Inr [NewPvariable, RegisterComponent, SetAdcChannel ch, register_microphone_compat ps]
    | Inr (I2sChannel c) \<Rightarrow>
        (\<exists>cfg. i2s_CONFIG_SCHEMA p r = Inr cfg \<and> channel cfg = c) \<and>
        i2s_build p ps r = Inr [NewPvariable, RegisterComponent, RegisterI2sReader, register_microphone_compat ps]"
proof (cases "capability_validate p a")
  case (Inl e)
  have "isl (i2s_build p ps r)"
  proof (cases "i2s_build p ps r")
    case (Inr ss)
    with spec_of_code_accepts [OF assms(2)] Inl show ?thesis by fastforce
  qed simp
  with Inl show ?thesis by simp
next
  case (Inr x)
  then show ?thesis
  proof (cases x)
    case (AdcChannel ch)
    with Inr code_of_spec_adc_channel [OF assms] show ?thesis by simp
  next
    case (I2sChannel c)
    with Inr code_of_spec_i2s_channel [OF assms(2)] show ?thesis by fastforce
  qed
qed

theorem i2s_build_refines_capability_validate_witness:
  "adc1_exact (example_platform VARIANT_ESP32) \<and>
   acq_of_raw (example_platform VARIANT_ESP32) mic_internal_34 =
     Some \<lparr>acq_mode = Internal, acq_pdm = False, acq_selector = PinSel 34,
           acq_bit_depth = 32, acq_sample_rate = 16000\<rparr> \<and>
   capability_validate (example_platform VARIANT_ESP32)
     \<lparr>acq_mode = Internal, acq_pdm = False, acq_selector = PinSel 34,
      acq_bit_depth = 32, acq_sample_rate = 16000\<rparr> = Inr (AdcChannel 6) \<and>
   i2s_build (example_platform VARIANT_ESP32) [] mic_internal_34 =
     Inr [NewPvariable, RegisterComponent, SetAdcChannel 6, register_microphone_compat []]"
proof -
  have cv: "capability_validate (example_platform VARIANT_ESP32)
     \<lparr>acq_mode = Internal, acq_pdm = False, acq_selector = PinSel 34,
      acq_bit_depth = 32, acq_sample_rate = 16000\<rparr> = Inr (AdcChannel 6)"
    by (simp add: capability_validate_def platform_defs)
  show ?thesis
    using i2s_build_refines_capability_validate [OF adc1_exact_example_platform scenario_internal_34_acq,
        where ps = "[]"] cv adc1_exact_example_platform scenario_internal_34_acq
    by simp
qed

text \<open>
  C16. Where the two orders cannot disagree they do not: once every key of the mapping is
  valid (the typed schema accepts it), the error the spec's validator returns is exactly
  the one error the code reports.
\<close>

theorem i2s_build_error_agrees_on_valid_keys:
  assumes "adc1_exact p" and "acq_of_raw p r = Some a" and "i2s_typed_schema p r = Inr c"
    and "capability_validate p a = Inl e"
  shows "i2s_build p ps r = Inl [e]"
  using assms(2)
proof (cases rule: acq_of_raw_SomeE)
  case (int n)
  with assms(3) have "internal_schema p r = Inr c" by (simp add: i2s_typed_schema_def)
  then have f: "bits_or_default r \<in> {16, 32}" "1 \<le> rate_or_default r" "adc_type c = ''internal''"
    "adc_pin_ok p (current_variant p) n"
    using int by (auto simp: internal_schema_Inr_iff validate_bits_default validate_rate_default
        dest: map_of_BITS_PER_SAMPLE_SomeD)
  with assms(1) obtain ch where "adc1_pin_to_channel p (current_variant p) n = Some ch"
    by (auto simp: adc1_exact_def)
  with assms(4) int f have "current_variant p \<notin> set INTERNAL_ADC_VARIANTS \<and> e = NoInternalADC (current_variant p)"
    by (auto simp: capability_validate_def Let_def split: if_splits)
  with f show ?thesis by (simp add: i2s_build_def i2s_CONFIG_SCHEMA_after_typed [OF assms(3)])
next
  case (ext d m)
  with assms(3) have "external_schema p r = Inr c" by (simp add: i2s_typed_schema_def)
  then have f: "bits_or_default r \<in> {16, 32}" "1 \<le> rate_or_default r" "adc_type c = ''external''"
    "map_of CHANNELS (channel_or_default r) = Some (channel c)" "pdm c = Some m"
    using ext by (auto simp: external_schema_Inr_iff validate_bits_default validate_rate_default
        validate_channel_default dest: map_of_BITS_PER_SAMPLE_SomeD)
  with assms(4) ext have "m \<and> current_variant p \<notin> set PDM_VARIANTS \<and> e = UnsupportedModeForVariant (current_variant p)"
    by (auto simp: capability_validate_def Let_def split: if_splits)
  with f show ?thesis by (simp add: i2s_build_def i2s_CONFIG_SCHEMA_after_typed [OF assms(3)])
qed

theorem i2s_build_error_agrees_on_valid_keys_witness:
  "adc1_exact (example_platform VARIANT_ESP32S3) \<and>
   acq_of_raw (example_platform VARIANT_ESP32S3) (mic_internal_34\<lparr>raw_adc_pin := Some 1\<rparr>) =
     Some \<lparr>acq_mode = Internal, acq_pdm = False, acq_selector = PinSel 1,
           acq_bit_depth = 32, acq_sample_rate = 16000\<rparr> \<and>
   i2s_typed_schema (example_platform VARIANT_ESP32S3) (mic_internal_34\<lparr>raw_adc_pin := Some 1\<rparr>) =
     Inr (cfg_internal_34\<lparr>adc_pin := Some 1\<rparr>) \<and>
   capability_validate (example_platform VARIANT_ESP32S3)
     \<lparr>acq_mode = Internal, acq_pdm = False, acq_selector = PinSel 1,
      acq_bit_depth = 32, acq_sample_rate = 16000\<rparr> = Inl (NoInternalADC VARIANT_ESP32S3) \<and>
   i2s_build (example_platform VARIANT_ESP32S3) [] (mic_internal_34\<lparr>raw_adc_pin := Some 1\<rparr>) =
     Inl [NoInternalADC VARIANT_ESP32S3]"
proof -
  have a: "acq_of_raw (example_platform VARIANT_ESP32S3) (mic_internal_34\<lparr>raw_adc_pin := Some 1\<rparr>) =
     Some \<lparr>acq_mode = Internal, acq_pdm = False, acq_selector = PinSel 1,
           acq_bit_depth = 32, acq_sample_rate = 16000\<rparr>"
    by (simp add: acq_of_raw_def mic_internal_34_def channel_or_default_def bits_or_default_def
        rate_or_default_def CHANNELS_def)
  have t: "i2s_typed_schema (example_platform VARIANT_ESP32S3) (mic_internal_34\<lparr>raw_adc_pin := Some 1\<rparr>) =
     Inr (cfg_internal_34\<lparr>adc_pin := Some 1\<rparr>)"
    by (simp add: i2s_schema_defs validation_simps platform_defs mic_internal_34_def cfg_internal_34_def)
  have cv: "capability_validate (example_platform VARIANT_ESP32S3)
     \<lparr>acq_mode = Internal, acq_pdm = False, acq_selector = PinSel 1,
      acq_bit_depth = 32, acq_sample_rate = 16000\<rparr> = Inl (NoInternalADC VARIANT_ESP32S3)"
    by (simp add: capability_validate_def platform_defs)
  show ?thesis
    using i2s_build_error_agrees_on_valid_keys [OF adc1_exact_example_platform a t cv, where ps = "[]"]
      adc1_exact_example_platform a t cv
    by simp
qed

text \<open>
  The two rule orders do disagree on a mapping with several faults: an external PDM
  transducer with 24-bit samples on an ESP32-C3 is \<open>UnsupportedModeForVariant\<close> under
  the spec's order and \<open>UnsupportedBitDepth 24\<close> in the code.
\<close>

lemma capability_validate_error_order_differs:
  "acq_of_raw (example_platform VARIANT_ESP32C3) (mic_external_pdm\<lparr>raw_bits_per_sample := Some 24\<rparr>) =
     Some \<lparr>acq_mode = External, acq_pdm = True, acq_selector = ChannelSel ''left'',
           acq_bit_depth = 24, acq_sample_rate = 48000\<rparr> \<and>
   capability_validate (example_platform VARIANT_ESP32C3)
     \<lparr>acq_mode = External, acq_pdm = True, acq_selector = ChannelSel ''left'',
      acq_bit_depth = 24, acq_sample_rate = 48000\<rparr> = Inl (UnsupportedModeForVariant VARIANT_ESP32C3) \<and>
   i2s_build (example_platform VARIANT_ESP32C3) [] (mic_external_pdm\<lparr>raw_bits_per_sample := Some 24\<rparr>) =
     Inl [UnsupportedBitDepth 24]"
proof -
  have a: "acq_of_raw (example_platform VARIANT_ESP32C3) (mic_external_pdm\<lparr>raw_bits_per_sample := Some 24\<rparr>) =
     Some \<lparr>acq_mode = External, acq_pdm = True, acq_selector = ChannelSel ''left'',
           acq_bit_depth = 24, acq_sample_rate = 48000\<rparr>"
    by (simp add: acq_of_raw_def mic_external_pdm_def channel_or_default_def bits_or_default_def
        rate_or_default_def example_platform_def)
  have cv: "capability_validate (example_platform VARIANT_ESP32C3)
     \<lparr>acq_mode = External, acq_pdm = True, acq_selector = ChannelSel ''left'',
      acq_bit_depth = 24, acq_sample_rate = 48000\<rparr> = Inl (UnsupportedModeForVariant VARIANT_ESP32C3)"
    by (simp add: capability_validate_def platform_defs)
  have b: "i2s_build (example_platform VARIANT_ESP32C3) [] (mic_external_pdm\<lparr>raw_bits_per_sample := Some 24\<rparr>) =
     Inl [UnsupportedBitDepth 24]"
    by (simp add: i2s_build_def i2s_schema_defs validation_simps platform_defs mic_external_pdm_def)
  from a cv b show ?thesis by simp
qed

text \<open>
  C17. Negotiation (spec 4.5 and 8) on whatever registration either platform generated:
  a consumer that asks for no more than one channel gets what it asks for, one that asks
  for two gets \<open>CapabilityMismatch\<close>, and one on the legacy interface, which sends no
  request, gets the single-channel default. The outcome does not depend on whether
  \<open>register_microphone\<close> has the \<open>audio_device\<close> parameter: the legacy fallback is
  transparent.
\<close>

theorem negotiate_generated_registration:
  assumes "i2s_build p ps r = Inr ss \<or> adf_build ps r' = Inr ss"
  shows "negotiate (offer_of_registration (last ss)) req =
    (case req of None \<Rightarrow> Inr 1 | Some n \<Rightarrow> if n \<le> 1 then Inr n else Inl CapabilityMismatch)"
proof -
  have "last ss = register_microphone_compat ps"
    using assms
  proof
    assume "i2s_build p ps r = Inr ss"
    then obtain c where "i2s_to_code p ps c = Inr ss" by (blast dest: i2s_build_InrD)
    then show ?thesis by (simp add: i2s_to_code_Inr_register_last)
  next
    assume "adf_build ps r' = Inr ss"
    then show ?thesis by (rule adf_build_InrD)
  qed
  then show ?thesis by (simp add: negotiate_compat)
qed

theorem negotiate_generated_registration_witness:
  "adf_build [''var'', ''config'', ''audio_device''] \<lparr>raw_gain_log2 = None\<rparr> =
     Inr [NewPvariable, SetGainLog2 0, RegisterComponent, SetupPipelineController,
          RegisterMicrophone (Some [(''max_channels'', 1)])] \<and>
   negotiate (offer_of_registration (RegisterMicrophone (Some [(''max_channels'', 1)]))) (Some 1) = Inr 1 \<and>
   negotiate (offer_of_registration (RegisterMicrophone (Some [(''max_channels'', 1)]))) (Some 2) =
     Inl CapabilityMismatch"
proof -
  have h: "adf_build [''var'', ''config'', ''audio_device''] \<lparr>raw_gain_log2 = None\<rparr> =
     Inr [NewPvariable, SetGainLog2 0, RegisterComponent, SetupPipelineController,
          RegisterMicrophone (Some [(''max_channels'', 1)])]"
    by (simp add: adf_build_def adf_CONFIG_SCHEMA_eq adf_to_code_def register_microphone_compat_def
        audio_device_def)
  show ?thesis
    using h negotiate_generated_registration [OF disjI2 [OF h], where req = "Some 1"]
      negotiate_generated_registration [OF disjI2 [OF h], where req = "Some 2"]
    by simp
qed

end
