(* ===== verification/Normalizer.thy ===== *)
theory Normalizer
  imports ADF_Microphone "HOL-Library.Word"
begin

text \<open>
  The format normaliser of spec sections 4.3 and 4.4 (C++ runtime of the ADF microphone,
  not in \<open>src/\<close>; modelled from the spec). A sample is an \<open>'a word\<close> read as a signed
  \<open>LENGTH('a)\<close>-bit value (16 or 32 bits, the two \<open>BITS_PER_SAMPLE\<close> depths). The gain
  \<open>gain_log2\<close> configured by the ADF platform multiplies a sample by \<open>2 ^ gain_log2\<close>
  with saturation at the word's signed range: \<open>sat_shl\<close> states this on integers, and
  \<open>sat_shl_fast\<close> is the routine the runtime uses, which compares the sample against
  thresholds shifted down once and otherwise shifts the word left. \<open>normalize_frame\<close> pads or
  truncates a frame to the negotiated channel count (padding with silence) and applies
  the gain to every sample. The lemmas give the exact value of a gained sample, the
  equivalence of the two routines for every gain below the word width, and the
  pass-through of the default gain.
\<close>

definition sample_max :: "'a::len word" where
  "sample_max = word_of_int (2 ^ (LENGTH('a) - 1) - 1)"

definition sample_min :: "'a::len word" where
  "sample_min = word_of_int (- (2 ^ (LENGTH('a) - 1)))"

definition sat_shl :: "nat \<Rightarrow> 'a::len word \<Rightarrow> 'a word" where
  "sat_shl g x =
     (let v = sint x * 2 ^ g in
      if 2 ^ (LENGTH('a) - 1) - 1 < v then sample_max
      else if v < - (2 ^ (LENGTH('a) - 1)) then sample_min
      else word_of_int v)"

definition sat_shl_fast :: "nat \<Rightarrow> 'a::len word \<Rightarrow> 'a word" where
  "sat_shl_fast g x =
     (if signed_drop_bit g sample_max <s x then sample_max
      else if x <s signed_drop_bit g sample_min then sample_min
      else push_bit g x)"

definition normalize_frame :: "nat \<Rightarrow> nat \<Rightarrow> 'a::len word list \<Rightarrow> 'a word list" where
  "normalize_frame out_channels g frame =
     map (sat_shl_fast g) (take out_channels (frame @ replicate out_channels 0))"

section \<open>Integer and word lemmas\<close>

lemma int_div_less_iff:
  fixes M a d :: int
  assumes "0 < d"
  shows "M div d < a \<longleftrightarrow> M < a * d"
proof
  assume "M div d < a"
  then have "d * (M div d + 1) \<le> d * a" using assms by (simp add: mult_left_mono)
  moreover have "M < d * (M div d + 1)"
  proof -
    have "d * (M div d) + M mod d = M" by (rule mult_div_mod_eq)
    with pos_mod_bound [OF assms, of M] show ?thesis by (simp only: distrib_left mult_1_right)
  qed
  ultimately show "M < a * d" by (simp add: mult.commute)
next
  assume "M < a * d"
  show "M div d < a"
  proof (rule ccontr)
    assume "\<not> M div d < a"
    then have "d * a \<le> d * (M div d)" using assms by (simp add: mult_left_mono)
    also have "\<dots> \<le> M" using pos_mod_sign [OF assms, of M] mult_div_mod_eq [of d M] by linarith
    finally show False using \<open>M < a * d\<close> by (simp add: mult.commute)
  qed
qed

lemma int_less_div_iff_dvd:
  fixes N a d :: int
  assumes "0 < d" and "d dvd N"
  shows "a < N div d \<longleftrightarrow> a * d < N"
proof -
  from assms(2) obtain k where k: "N = d * k" by (rule dvdE)
  with assms(1) show ?thesis by (simp add: mult.commute)
qed

lemma sint_word_of_int_small:
  "- (2 ^ (LENGTH('a) - 1)) \<le> i \<Longrightarrow> i < 2 ^ (LENGTH('a) - 1) \<Longrightarrow>
   sint (word_of_int i :: 'a::len word) = i"
  by (simp add: sint_sbintrunc' signed_take_bit_int_eq_self)

lemma sint_sample_max [simp]: "sint (sample_max :: 'a::len word) = 2 ^ (LENGTH('a) - 1) - 1"
  unfolding sample_max_def by (rule sint_word_of_int_small) simp_all

lemma sint_sample_min [simp]: "sint (sample_min :: 'a::len word) = - (2 ^ (LENGTH('a) - 1))"
  unfolding sample_min_def by (rule sint_word_of_int_small) simp_all

lemma push_bit_sint: "push_bit g (x::'a::len word) = word_of_int (sint x * 2 ^ g)"
  by (simp add: push_bit_eq_mult)

lemma sint_mult_pow2_small:
  assumes "- (2 ^ (LENGTH('a) - 1)) \<le> sint x * 2 ^ g" and "sint x * 2 ^ g < 2 ^ (LENGTH('a) - 1)"
  shows "sint (x * 2 ^ g :: 'a::len word) = sint x * 2 ^ g"
proof -
  have e: "(x * 2 ^ g :: 'a word) = word_of_int (sint x * 2 ^ g)" by simp
  show ?thesis unfolding e using assms by (rule sint_word_of_int_small)
qed

section \<open>The gained sample\<close>

lemma sint_sat_shl:
  "sint (sat_shl g x :: 'a::len word) =
     max (- (2 ^ (LENGTH('a) - 1))) (min (2 ^ (LENGTH('a) - 1) - 1) (sint x * 2 ^ g))"
  by (simp add: sat_shl_def Let_def sint_mult_pow2_small)

lemma sat_shl_fast_eq_sat_shl:
  assumes "g < LENGTH('a)"
  shows "sat_shl_fast g x = sat_shl g (x :: 'a::len word)"
proof -
  let ?n = "LENGTH('a) - 1"
  have d: "(0::int) < 2 ^ g" by simp
  have dvd: "(2::int) ^ g dvd 2 ^ ?n" using assms by (simp add: le_imp_power_dvd)
  have hi: "signed_drop_bit g sample_max <s x \<longleftrightarrow> 2 ^ ?n - 1 < sint x * 2 ^ g"
    by (simp add: word_sless_alt sint_signed_drop_bit_eq drop_bit_int_def int_div_less_iff [OF d])
  have lo: "x <s signed_drop_bit g sample_min \<longleftrightarrow> sint x * 2 ^ g < - (2 ^ ?n)"
    using int_less_div_iff_dvd [OF d, of "- (2 ^ ?n)" "sint x"] dvd
    by (simp add: word_sless_alt sint_signed_drop_bit_eq drop_bit_int_def)
  show ?thesis
    unfolding sat_shl_fast_def sat_shl_def Let_def hi lo push_bit_sint by simp
qed

lemma sat_shl_zero [simp]: "sat_shl 0 x = (x :: 'a::len word)"
proof (rule signed_word_eqI)
  have "- (2 ^ (LENGTH('a) - 1)) \<le> sint x" and "sint x < 2 ^ (LENGTH('a) - 1)"
    using sint_greater_eq [of x] sint_less [of x] by simp_all
  then show "sint (sat_shl 0 x) = sint x" by (simp add: sint_sat_shl)
qed

lemma length_normalize_frame [simp]: "length (normalize_frame n g frame) = n"
  by (simp add: normalize_frame_def)

lemma gain_of_adf_schema:
  "adf_CONFIG_SCHEMA r = Inr c \<Longrightarrow> 0 \<le> gain_log2 c \<and> gain_log2 c \<le> 7"
  by (auto simp: adf_CONFIG_SCHEMA_eq Let_def split: if_splits)

lemma gain_of_adf_schema_below_width:
  assumes "adf_CONFIG_SCHEMA r = Inr c" and "7 < LENGTH('a)"
  shows "nat (gain_log2 c) < LENGTH('a::len)"
proof -
  have "nat (gain_log2 c) \<le> 7" using gain_of_adf_schema [OF assms(1)] by (simp add: nat_le_iff)
  with assms(2) show ?thesis by linarith
qed

lemma normalize_frame_full:
  "normalize_frame (length frame) g frame = map (sat_shl_fast g) frame"
  by (simp add: normalize_frame_def)

section \<open>Properties of the normaliser\<close>

text \<open>
  C18. Bounds without wrap-around: with any gain the ADF schema accepts and samples of at
  least 8 bits, every sample of a normalised frame reads, as a signed integer, as the
  sample times \<open>2 ^ gain_log2\<close> clamped to the word's signed range; in particular it
  never leaves the range and never changes sign.
\<close>

theorem normalize_configured_gain_exact:
  assumes "adf_CONFIG_SCHEMA r = Inr c" and "7 < LENGTH('a)"
  shows "map sint (normalize_frame (length frame) (nat (gain_log2 c)) (frame :: 'a::len word list)) =
    map (\<lambda>x. max (- (2 ^ (LENGTH('a) - 1))) (min (2 ^ (LENGTH('a) - 1) - 1) (sint x * 2 ^ nat (gain_log2 c))))
      frame"
proof -
  have "nat (gain_log2 c) < LENGTH('a)" using assms by (rule gain_of_adf_schema_below_width)
  then show ?thesis
    by (simp add: normalize_frame_full sat_shl_fast_eq_sat_shl sint_sat_shl)
qed

theorem normalize_configured_gain_exact_witness:
  "adf_CONFIG_SCHEMA \<lparr>raw_gain_log2 = Some 3\<rparr> = Inr \<lparr>gain_log2 = 3\<rparr> \<and> 7 < LENGTH(16) \<and>
   map sint (normalize_frame 2 3 [0x1000, 0xF000 :: 16 word]) = [32767, -32768]"
proof -
  have h: "adf_CONFIG_SCHEMA \<lparr>raw_gain_log2 = Some 3\<rparr> = Inr \<lparr>gain_log2 = 3\<rparr>"
    by (simp add: adf_CONFIG_SCHEMA_eq)
  have l: "7 < LENGTH(16)" by simp
  show ?thesis
    using h l normalize_configured_gain_exact [OF h l, where frame = "[0x1000, 0xF000]"]
    by (simp add: numeral_2_eq_2)
qed

text \<open>
  C19. Spec section 8: with the default gain (\<open>gain_log2\<close> left out, so 0) the
  normaliser is the identity on frames of the negotiated width, whatever the sample
  width.
\<close>

theorem normalize_default_gain_identity:
  assumes "adf_CONFIG_SCHEMA \<lparr>raw_gain_log2 = None\<rparr> = Inr c"
  shows "normalize_frame (length frame) (nat (gain_log2 c)) (frame :: 'a::len word list) = frame"
proof -
  have "gain_log2 c = 0" using assms by (auto simp: adf_CONFIG_SCHEMA_eq)
  then show ?thesis
    by (simp add: normalize_frame_full sat_shl_fast_eq_sat_shl map_idI)
qed

theorem normalize_default_gain_identity_witness:
  "adf_CONFIG_SCHEMA \<lparr>raw_gain_log2 = None\<rparr> = Inr \<lparr>gain_log2 = 0\<rparr> \<and>
   normalize_frame 1 0 [0x80000000 :: 32 word] = [0x80000000]"
proof -
  have h: "adf_CONFIG_SCHEMA \<lparr>raw_gain_log2 = None\<rparr> = Inr \<lparr>gain_log2 = 0\<rparr>"
    by (simp add: adf_CONFIG_SCHEMA_eq)
  show ?thesis using h normalize_default_gain_identity [OF h, where frame = "[0x80000000 :: 32 word]"] by simp
qed

end
