(* ===== verification/Sample_Buffer.thy ===== *)
theory Sample_Buffer
  imports Mic_Prelude "HOL-Library.Sublist"
begin

text \<open>
  The \<open>SampleBuffer\<close> of spec sections 3, 4.3 and 5 (C++ runtime, not in \<open>src/\<close>;
  modelled from the spec): a ring of \<open>capacity\<close> slots shared by one producer (the
  acquisition interrupt) and one consumer (the pipeline loop). The producer only advances
  the write cursor \<open>wr\<close>, the consumer only the read cursor \<open>rd\<close>; both are
  free-running counters and a slot is addressed modulo the capacity. A frame that finds
  the ring full is dropped and counted in \<open>overruns\<close>; the producer never waits.
  The abstract specification is a bounded FIFO queue with a drop counter
  (\<open>fifo\<close>); \<open>ring_abs\<close> maps a ring to it, and the lemmas show that the ring
  keeps its invariant and refines the queue operation by operation, and that over any
  interleaving of producer and consumer steps the frames consumed and still buffered are
  the frames produced, in order, less exactly \<open>overruns\<close> dropped ones.
\<close>

record 'a ring =
  slots :: "'a list"
  rd :: nat
  wr :: nat
  overruns :: nat

definition ring_new :: "nat \<Rightarrow> 'a \<Rightarrow> 'a ring" where
  "ring_new capacity fill = \<lparr>slots = replicate capacity fill, rd = 0, wr = 0, overruns = 0\<rparr>"

definition ring_push :: "'a \<Rightarrow> 'a ring \<Rightarrow> 'a ring" where
  "ring_push x r =
     (if wr r - rd r = length (slots r) then r\<lparr>overruns := overruns r + 1\<rparr>
      else r\<lparr>slots := (slots r)[wr r mod length (slots r) := x], wr := wr r + 1\<rparr>)"

definition ring_pop :: "'a ring \<Rightarrow> 'a option \<times> 'a ring" where
  "ring_pop r =
     (if rd r = wr r then (None, r)
      else (Some (slots r ! (rd r mod length (slots r))), r\<lparr>rd := rd r + 1\<rparr>))"

definition ring_inv :: "'a ring \<Rightarrow> bool" where
  "ring_inv r \<longleftrightarrow> 0 < length (slots r) \<and> rd r \<le> wr r \<and> wr r - rd r \<le> length (slots r)"

definition ring_contents :: "'a ring \<Rightarrow> 'a list" where
  "ring_contents r = map (\<lambda>i. slots r ! (i mod length (slots r))) [rd r..<wr r]"

text \<open>The consumer drains the ring at stop: at most \<open>n\<close> pops, each taking the oldest frame.\<close>

fun ring_drain :: "nat \<Rightarrow> 'a ring \<Rightarrow> 'a list \<times> 'a ring" where
  "ring_drain 0 r = ([], r)"
| "ring_drain (Suc n) r =
     (case ring_pop r of
        (None, r') \<Rightarrow> ([], r')
      | (Some x, r') \<Rightarrow> (let (xs, r'') = ring_drain n r' in (x # xs, r'')))"

section \<open>The abstract bounded queue\<close>

record 'a fifo =
  fifo_items :: "'a list"
  fifo_cap :: nat
  fifo_dropped :: nat

definition fifo_push :: "'a \<Rightarrow> 'a fifo \<Rightarrow> 'a fifo" where
  "fifo_push x f =
     (if length (fifo_items f) = fifo_cap f then f\<lparr>fifo_dropped := fifo_dropped f + 1\<rparr>
      else f\<lparr>fifo_items := fifo_items f @ [x]\<rparr>)"

definition fifo_pop :: "'a fifo \<Rightarrow> 'a option \<times> 'a fifo" where
  "fifo_pop f =
     (case fifo_items f of
        [] \<Rightarrow> (None, f)
      | x # xs \<Rightarrow> (Some x, f\<lparr>fifo_items := xs\<rparr>))"

definition ring_abs :: "'a ring \<Rightarrow> 'a fifo" where
  "ring_abs r = \<lparr>fifo_items = ring_contents r, fifo_cap = length (slots r), fifo_dropped = overruns r\<rparr>"

section \<open>Interleaved producer and consumer steps\<close>

datatype 'a buf_event = Produce 'a | Consume

fun produced :: "'a buf_event list \<Rightarrow> 'a list" where
  "produced [] = []"
| "produced (Produce x # es) = x # produced es"
| "produced (Consume # es) = produced es"

text \<open>A run returns the frames the consumer received, in order, and the final ring.\<close>

fun ring_run :: "'a ring \<Rightarrow> 'a buf_event list \<Rightarrow> 'a list \<times> 'a ring" where
  "ring_run r [] = ([], r)"
| "ring_run r (Produce x # es) = ring_run (ring_push x r) es"
| "ring_run r (Consume # es) =
     (case ring_pop r of
        (None, r') \<Rightarrow> ring_run r' es
      | (Some x, r') \<Rightarrow> (let (out, r'') = ring_run r' es in (x # out, r'')))"

fun fifo_run :: "'a fifo \<Rightarrow> 'a buf_event list \<Rightarrow> 'a list \<times> 'a fifo" where
  "fifo_run f [] = ([], f)"
| "fifo_run f (Produce x # es) = fifo_run (fifo_push x f) es"
| "fifo_run f (Consume # es) =
     (case fifo_pop f of
        (None, f') \<Rightarrow> fifo_run f' es
      | (Some x, f') \<Rightarrow> (let (out, f'') = fifo_run f' es in (x # out, f'')))"

section \<open>Lemmas: invariant and refinement, operation by operation\<close>

lemma ring_new_inv: "0 < capacity \<Longrightarrow> ring_inv (ring_new capacity fill)"
  by (simp add: ring_inv_def ring_new_def)

lemma ring_new_abs: "ring_abs (ring_new capacity fill) = \<lparr>fifo_items = [], fifo_cap = capacity, fifo_dropped = 0\<rparr>"
  by (simp add: ring_abs_def ring_contents_def ring_new_def)

lemma ring_contents_new [simp]: "ring_contents (ring_new capacity fill) = []"
  by (simp add: ring_contents_def ring_new_def)

lemma overruns_ring_new [simp]: "overruns (ring_new capacity fill) = 0"
  by (simp add: ring_new_def)

lemma length_slots_ring_new [simp]: "length (slots (ring_new capacity fill)) = capacity"
  by (simp add: ring_new_def)

lemma ring_push_inv: "ring_inv r \<Longrightarrow> ring_inv (ring_push x r)"
  by (auto simp: ring_inv_def ring_push_def)

lemma ring_pop_inv: "ring_inv r \<Longrightarrow> ring_inv (snd (ring_pop r))"
  by (auto simp: ring_inv_def ring_pop_def)

lemma length_ring_contents: "ring_inv r \<Longrightarrow> length (ring_contents r) = wr r - rd r"
  by (simp add: ring_contents_def)

text \<open>A slot still to be read is never the one the producer writes next.\<close>

lemma ring_slot_distinct:
  fixes c rd' i w :: nat
  assumes "0 < c" and "rd' \<le> i" and "i < w" and "w - rd' < c"
  shows "i mod c \<noteq> w mod c"
proof
  assume "i mod c = w mod c"
  then have "w mod c = i mod c" by simp
  then have "c dvd w - i" using mod_eq_dvd_iff_nat [of i w c] assms(3) by simp
  moreover have "0 < w - i" and "w - i < c" using assms by auto
  ultimately show False using nat_dvd_not_less by blast
qed

lemma ring_contents_push:
  assumes "ring_inv r" and "wr r - rd r \<noteq> length (slots r)"
  shows "ring_contents (ring_push x r) = ring_contents r @ [x]"
proof -
  let ?c = "length (slots r)"
  have c: "0 < ?c" and le: "rd r \<le> wr r" and lt: "wr r - rd r < ?c"
    using assms by (auto simp: ring_inv_def)
  have old: "(slots r)[wr r mod ?c := x] ! (i mod ?c) = slots r ! (i mod ?c)"
    if "i \<in> set [rd r..<wr r]" for i
  proof -
    have "wr r mod ?c \<noteq> i mod ?c" using that ring_slot_distinct [OF c _ _ lt, of i] by auto
    then show ?thesis by (rule nth_list_update_neq)
  qed
  have new: "(slots r)[wr r mod ?c := x] ! (wr r mod ?c) = x"
    using c by simp
  show ?thesis
    using assms(2) le old new
    by (simp add: ring_push_def ring_contents_def)
qed

lemma ring_contents_overruns [simp]: "ring_contents (r\<lparr>overruns := n\<rparr>) = ring_contents r"
  by (simp add: ring_contents_def)

lemma ring_push_refines: "ring_inv r \<Longrightarrow> ring_abs (ring_push x r) = fifo_push x (ring_abs r)"
  by (auto simp: ring_abs_def fifo_push_def ring_contents_push length_ring_contents)
    (auto simp: ring_push_def)

lemma ring_pop_refines:
  assumes "ring_inv r"
  shows "fst (ring_pop r) = fst (fifo_pop (ring_abs r)) \<and>
    ring_abs (snd (ring_pop r)) = snd (fifo_pop (ring_abs r))"
proof (cases "rd r = wr r")
  case True
  then show ?thesis by (simp add: ring_pop_def fifo_pop_def ring_abs_def ring_contents_def)
next
  case False
  with assms have "rd r < wr r" by (simp add: ring_inv_def)
  then have "[rd r..<wr r] = rd r # [Suc (rd r)..<wr r]" by (simp add: upt_conv_Cons)
  with False show ?thesis by (simp add: ring_pop_def fifo_pop_def ring_abs_def ring_contents_def)
qed

lemma length_slots_ring_push [simp]: "length (slots (ring_push x r)) = length (slots r)"
  by (simp add: ring_push_def)

lemma ring_push_contents:
  "ring_inv r \<Longrightarrow>
   ring_contents (ring_push x r) = ring_contents r \<or> ring_contents (ring_push x r) = ring_contents r @ [x]"
  using ring_push_refines [of r x] by (auto simp: ring_abs_def fifo_push_def split: if_splits)

lemma ring_pop_contents:
  assumes "ring_inv r" and "ring_pop r = (v, r')"
  shows "ring_contents r = (case v of None \<Rightarrow> [] | Some x \<Rightarrow> [x]) @ ring_contents r' \<and>
    length (slots r') = length (slots r)"
  using ring_pop_refines [OF assms(1)] assms(2)
  by (auto simp: ring_abs_def fifo_pop_def ring_pop_def split: list.splits if_splits)

lemma ring_run_refines:
  "ring_inv r \<Longrightarrow>
   fst (ring_run r es) = fst (fifo_run (ring_abs r) es) \<and>
   ring_abs (snd (ring_run r es)) = snd (fifo_run (ring_abs r) es) \<and> ring_inv (snd (ring_run r es))"
proof (induction es arbitrary: r)
  case Nil
  then show ?case by simp
next
  case (Cons e es)
  show ?case
  proof (cases e)
    case (Produce x)
    with Cons show ?thesis by (simp add: ring_push_refines ring_push_inv)
  next
    case Consume
    obtain v r' where p: "ring_pop r = (v, r')" by fastforce
    with ring_pop_refines [OF Cons.prems] ring_pop_inv [OF Cons.prems]
    have fo: "fifo_pop (ring_abs r) = (v, ring_abs r')" and i: "ring_inv r'"
      by (auto simp: prod_eq_iff)
    from Cons.IH [OF i] Consume p fo show ?thesis
      by (cases v) (auto split: prod.splits)
  qed
qed

lemma ring_contents_pop:
  assumes "rd r < wr r"
  shows "ring_contents r = slots r ! (rd r mod length (slots r)) # ring_contents (r\<lparr>rd := Suc (rd r)\<rparr>)"
  using assms by (simp add: ring_contents_def upt_conv_Cons)

lemma ring_drain_all:
  "ring_inv r \<Longrightarrow> wr r - rd r \<le> n \<Longrightarrow>
   ring_drain n r = (ring_contents r, r\<lparr>rd := wr r\<rparr>)"
proof (induction n arbitrary: r)
  case 0
  then show ?case by (simp add: ring_inv_def ring_contents_def)
next
  case (Suc n)
  show ?case
  proof (cases "rd r = wr r")
    case True
    then show ?thesis by (simp add: ring_pop_def ring_contents_def)
  next
    case False
    with Suc.prems have lt: "rd r < wr r" by (simp add: ring_inv_def)
    let ?r' = "r\<lparr>rd := Suc (rd r)\<rparr>"
    have "ring_inv ?r'" using Suc.prems lt by (auto simp: ring_inv_def)
    moreover have "wr ?r' - rd ?r' \<le> n" using Suc.prems lt by simp
    ultimately have "ring_drain n ?r' = (ring_contents ?r', ?r'\<lparr>rd := wr r\<rparr>)" using Suc.IH by simp
    then show ?thesis using False lt by (simp add: ring_pop_def ring_contents_pop [OF lt])
  qed
qed

lemma subseq_set_mem: "subseq xs ys \<Longrightarrow> x \<in> set xs \<Longrightarrow> x \<in> set ys"
  by (auto elim: list_emb_set [of "(=)" xs ys x])

section \<open>Lemmas: the abstract queue loses frames only by counted drops\<close>

lemma fifo_push_cases:
  obtains "length (fifo_items f) = fifo_cap f" and
      "fifo_push x f = f\<lparr>fifo_dropped := fifo_dropped f + 1\<rparr>"
  | "length (fifo_items f) \<noteq> fifo_cap f" and
      "fifo_push x f = f\<lparr>fifo_items := fifo_items f @ [x]\<rparr>"
  by (cases "length (fifo_items f) = fifo_cap f") (simp_all add: fifo_push_def)

lemma fifo_run_conserves:
  "fifo_run f es = (out, f') \<Longrightarrow>
   \<exists>kept. subseq kept (produced es) \<and> out @ fifo_items f' = fifo_items f @ kept \<and>
     fifo_dropped f' = fifo_dropped f + (length (produced es) - length kept) \<and> fifo_cap f' = fifo_cap f"
proof (induction es arbitrary: f out f')
  case Nil
  then show ?case by auto
next
  case (Cons e es)
  show ?case
  proof (cases e)
    case (Produce x)
    with Cons.prems have "fifo_run (fifo_push x f) es = (out, f')" by simp
    from Cons.IH [OF this] obtain kept where
      sub: "subseq kept (produced es)" and
      eq: "out @ fifo_items f' = fifo_items (fifo_push x f) @ kept" and
      dr: "fifo_dropped f' = fifo_dropped (fifo_push x f) + (length (produced es) - length kept)" and
      cap: "fifo_cap f' = fifo_cap (fifo_push x f)"
      by blast
    have len: "length kept \<le> length (produced es)" using sub by (rule list_emb_length)
    show ?thesis
    proof (rule fifo_push_cases [where f = f and x = x])
      assume "length (fifo_items f) = fifo_cap f" "fifo_push x f = f\<lparr>fifo_dropped := fifo_dropped f + 1\<rparr>"
      then show ?thesis using sub eq dr cap len Produce
        by (intro exI [of _ kept]) (simp add: list_emb_Cons Suc_diff_le)
    next
      assume "length (fifo_items f) \<noteq> fifo_cap f" "fifo_push x f = f\<lparr>fifo_items := fifo_items f @ [x]\<rparr>"
      then show ?thesis using sub eq dr cap Produce
        by (intro exI [of _ "x # kept"]) simp
    qed
  next
    case Consume
    show ?thesis
    proof (cases "fifo_items f")
      case Nil
      with Cons.prems Consume have "fifo_run f es = (out, f')" by (simp add: fifo_pop_def)
      from Cons.IH [OF this] Consume show ?thesis by simp
    next
      case (Cons y ys)
      with Cons.prems Consume obtain out' where
        run: "fifo_run (f\<lparr>fifo_items := ys\<rparr>) es = (out', f')" and out: "out = y # out'"
        by (auto simp: fifo_pop_def split: prod.splits)
      from Cons.IH [OF run] Consume Cons out show ?thesis by simp
    qed
  qed
qed

lemma ring_run_conserves:
  assumes "ring_inv r" and "ring_run r es = (out, r')"
  shows "\<exists>kept. subseq kept (produced es) \<and> out @ ring_contents r' = ring_contents r @ kept \<and>
     overruns r' = overruns r + (length (produced es) - length kept) \<and>
     length (slots r') = length (slots r)"
proof -
  have "fifo_run (ring_abs r) es = (out, ring_abs r')"
    using ring_run_refines [OF assms(1), of es] assms(2) by (simp add: prod_eq_iff)
  from fifo_run_conserves [OF this] show ?thesis by (simp add: ring_abs_def)
qed

section \<open>Properties of the sample buffer\<close>

text \<open>A ring created empty refines the abstract bounded queue of the same capacity:
  over any interleaving of producer pushes and consumer pops, the ring hands the consumer the
  same frames as the queue, and ends in the abstraction of the queue's final state, its drop
  counter included (spec sections 3 and 5).\<close>

theorem ring_new_refines_fifo:
  assumes "0 < capacity"
  shows "fst (ring_run (ring_new capacity fill) es) =
      fst (fifo_run \<lparr>fifo_items = [], fifo_cap = capacity, fifo_dropped = 0\<rparr> es) \<and>
    ring_abs (snd (ring_run (ring_new capacity fill) es)) =
      snd (fifo_run \<lparr>fifo_items = [], fifo_cap = capacity, fifo_dropped = 0\<rparr> es)"
  using ring_run_refines [OF ring_new_inv [OF assms], of fill es] by (simp add: ring_new_abs)

theorem ring_new_refines_fifo_witness:
  "fst (ring_run (ring_new 2 (0::nat)) [Produce 1, Produce 2, Produce 3, Consume, Produce 4, Consume, Consume]) = [1, 2, 4] \<and>
   ring_abs (snd (ring_run (ring_new 2 (0::nat)) [Produce 1, Produce 2, Produce 3, Consume, Produce 4, Consume, Consume])) =
     \<lparr>fifo_items = [], fifo_cap = 2, fifo_dropped = 1\<rparr>"
proof -
  have "fst (fifo_run \<lparr>fifo_items = [], fifo_cap = 2, fifo_dropped = 0\<rparr>
      [Produce 1, Produce 2, Produce 3, Consume, Produce (4::nat), Consume, Consume]) = [1, 2, 4] \<and>
    snd (fifo_run \<lparr>fifo_items = [], fifo_cap = 2, fifo_dropped = 0\<rparr>
      [Produce 1, Produce 2, Produce 3, Consume, Produce (4::nat), Consume, Consume]) =
      \<lparr>fifo_items = [], fifo_cap = 2, fifo_dropped = 1\<rparr>"
    by (simp add: fifo_push_def fifo_pop_def)
  with ring_new_refines_fifo [of 2 "0::nat" "[Produce 1, Produce 2, Produce 3, Consume, Produce 4, Consume, Consume]"]
  show ?thesis by simp
qed

end
