(* ===== verification/Engine.thy ===== *)
theory Engine
  imports Sample_Buffer
begin

text \<open>
  The sample acquisition engine of spec sections 4.3 and 5 (C++ runtime, not in \<open>src/\<close>;
  modelled from the spec). Several engine instances share one peripheral, whose current
  holder is \<open>owner\<close>. An engine moves \<open>Idle \<rightarrow> Starting \<rightarrow> Running \<rightarrow> Stopping \<rightarrow> Idle\<close>,
  and \<open>Running \<rightarrow> Failed\<close> on a peripheral error. \<open>start\<close> is two steps (claim the
  peripheral, then initialise the driver, rolling the claim back if the driver refuses),
  and so is \<open>stop\<close> (disable the producer, then drain and release), so that producer
  interrupts can fall between the phases of the step relation \<open>acq_step\<close>. Each start
  creates a fresh sample ring; the ghost counter \<open>eng_epoch\<close> counts the starts and tags
  every produced frame, so that a frame from before a stop can be told apart from one
  produced after the next start. The driver's acceptance of a configuration is the
  parameter \<open>drv\<close>.
\<close>

datatype engine_state = Idle | Starting | Running | Stopping | Failed

record ('c, 'f) engine =
  eng_state :: engine_state
  eng_config :: "'c option"
  eng_epoch :: nat
  eng_buffer :: "('f \<times> nat) ring option"

record ('c, 'f) acq_system =
  owner :: "nat option"
  engines :: "('c, 'f) engine list"
  buffer_capacity :: nat
  silence :: 'f

definition engine_idle :: "('c, 'f) engine" where
  "engine_idle = \<lparr>eng_state = Idle, eng_config = None, eng_epoch = 0, eng_buffer = None\<rparr>"

definition acq_init :: "nat \<Rightarrow> nat \<Rightarrow> 'f \<Rightarrow> ('c, 'f) acq_system" where
  "acq_init n cap z =
     \<lparr>owner = None, engines = replicate n engine_idle, buffer_capacity = cap, silence = z\<rparr>"

definition update_engine ::
  "nat \<Rightarrow> (('c, 'f) engine \<Rightarrow> ('c, 'f) engine) \<Rightarrow> ('c, 'f) acq_system \<Rightarrow> ('c, 'f) acq_system" where
  "update_engine i f s = s\<lparr>engines := (engines s)[i := f (engines s ! i)]\<rparr>"

subsection \<open>start: claim the peripheral, then initialise the driver\<close>

definition engine_claim :: "nat \<Rightarrow> 'c \<Rightarrow> ('c, 'f) acq_system \<Rightarrow> error option \<times> ('c, 'f) acq_system" where
  "engine_claim i cfg s =
     (if length (engines s) \<le> i then (Some (NoSuchEngine i), s)
      else if owner s \<noteq> None then (Some PeripheralBusy, s)
      else (None, (update_engine i (\<lambda>e. e\<lparr>eng_state := Starting, eng_config := Some cfg\<rparr>) s)
                    \<lparr>owner := Some i\<rparr>))"

definition engine_init ::
  "('c \<Rightarrow> bool) \<Rightarrow> nat \<Rightarrow> 'c \<Rightarrow> ('c, 'f) acq_system \<Rightarrow> error option \<times> ('c, 'f) acq_system" where
  "engine_init drv i cfg s =
     (if drv cfg then
        (None, update_engine i (\<lambda>e. e\<lparr>eng_state := Running, eng_epoch := Suc (eng_epoch e),
                   eng_buffer := Some (ring_new (buffer_capacity s) (silence s, Suc (eng_epoch e)))\<rparr>) s)
      else
        (Some PeripheralInitError,
         (update_engine i (\<lambda>e. e\<lparr>eng_state := Idle, eng_config := None\<rparr>) s)\<lparr>owner := None\<rparr>))"

definition engine_start ::
  "('c \<Rightarrow> bool) \<Rightarrow> nat \<Rightarrow> 'c \<Rightarrow> ('c, 'f) acq_system \<Rightarrow> error option \<times> ('c, 'f) acq_system" where
  "engine_start drv i cfg s =
     (case engine_claim i cfg s of
        (Some err, s') \<Rightarrow> (Some err, s')
      | (None, s') \<Rightarrow> engine_init drv i cfg s')"

subsection \<open>stop: disable the producer, then drain the ring and release the peripheral\<close>

definition engine_stop_begin :: "nat \<Rightarrow> ('c, 'f) acq_system \<Rightarrow> ('c, 'f) acq_system" where
  "engine_stop_begin i s =
     update_engine i (\<lambda>e. if eng_state e = Starting \<or> eng_state e = Running
                           then e\<lparr>eng_state := Stopping\<rparr> else e) s"

definition engine_release :: "nat \<Rightarrow> ('c, 'f) acq_system \<Rightarrow> ('f \<times> nat) list \<times> ('c, 'f) acq_system" where
  "engine_release i s =
     (if i < length (engines s) \<and>
         (eng_state (engines s ! i) = Stopping \<or> eng_state (engines s ! i) = Failed) then
        (case eng_buffer (engines s ! i) of
           None \<Rightarrow> []
         | Some r \<Rightarrow> fst (ring_drain (wr r - rd r) r),
         (update_engine i (\<lambda>e. e\<lparr>eng_state := Idle, eng_config := None, eng_buffer := None\<rparr>) s)
           \<lparr>owner := (if owner s = Some i then None else owner s)\<rparr>)
      else ([], s))"

definition engine_stop :: "nat \<Rightarrow> ('c, 'f) acq_system \<Rightarrow> ('f \<times> nat) list \<times> ('c, 'f) acq_system" where
  "engine_stop i s = engine_release i (engine_stop_begin i s)"

subsection \<open>The producer interrupt, a peripheral fault, and the consumer's pop\<close>

definition engine_produce :: "nat \<Rightarrow> 'f \<Rightarrow> ('c, 'f) acq_system \<Rightarrow> ('c, 'f) acq_system" where
  "engine_produce i x s =
     update_engine i (\<lambda>e. case eng_buffer e of
         Some r \<Rightarrow> if eng_state e = Running then e\<lparr>eng_buffer := Some (ring_push (x, eng_epoch e) r)\<rparr> else e
       | None \<Rightarrow> e) s"

definition engine_fail :: "nat \<Rightarrow> ('c, 'f) acq_system \<Rightarrow> ('c, 'f) acq_system" where
  "engine_fail i s =
     update_engine i (\<lambda>e. if eng_state e = Running then e\<lparr>eng_state := Failed\<rparr> else e) s"

definition engine_consume :: "nat \<Rightarrow> ('c, 'f) acq_system \<Rightarrow> ('f \<times> nat) option \<times> ('c, 'f) acq_system" where
  "engine_consume i s =
     (if i < length (engines s) then
        (case eng_buffer (engines s ! i) of
           None \<Rightarrow> (None, s)
         | Some r \<Rightarrow> (let (v, r') = ring_pop r in (v, update_engine i (\<lambda>e. e\<lparr>eng_buffer := Some r'\<rparr>) s)))
      else (None, s))"

subsection \<open>Interleaved steps of all engines and of the producer\<close>

inductive acq_step :: "('c \<Rightarrow> bool) \<Rightarrow> ('c, 'f) acq_system \<Rightarrow> ('c, 'f) acq_system \<Rightarrow> bool"
  for drv :: "'c \<Rightarrow> bool" where
  claim: "engine_claim i cfg s = (None, s') \<Longrightarrow> acq_step drv s s'"
| init: "i < length (engines s) \<Longrightarrow> eng_state (engines s ! i) = Starting \<Longrightarrow>
    eng_config (engines s ! i) = Some cfg \<Longrightarrow> engine_init drv i cfg s = (res, s') \<Longrightarrow> acq_step drv s s'"
| stop_begin: "acq_step drv s (engine_stop_begin i s)"
| release: "engine_release i s = (fs, s') \<Longrightarrow> acq_step drv s s'"
| produce: "acq_step drv s (engine_produce i x s)"
| fail: "acq_step drv s (engine_fail i s)"
| consume: "engine_consume i s = (v, s') \<Longrightarrow> acq_step drv s s'"

definition acq_reach :: "('c \<Rightarrow> bool) \<Rightarrow> nat \<Rightarrow> nat \<Rightarrow> 'f \<Rightarrow> ('c, 'f) acq_system \<Rightarrow> bool" where
  "acq_reach drv n cap z s \<longleftrightarrow> 0 < cap \<and> (acq_step drv)\<^sup>*\<^sup>* (acq_init n cap z) s"

text \<open>The frames an engine holds, oldest first, with their epoch tags.\<close>

definition engine_frames :: "('c, 'f) engine \<Rightarrow> ('f \<times> nat) list" where
  "engine_frames e = (case eng_buffer e of None \<Rightarrow> [] | Some r \<Rightarrow> ring_contents r)"

text \<open>The invariant: the owner is the one engine that is not idle; an engine has a ring
  exactly when it has been initialised, and every buffered frame carries the engine's epoch.\<close>

definition engine_ok :: "('c, 'f) acq_system \<Rightarrow> nat \<Rightarrow> ('c, 'f) engine \<Rightarrow> bool" where
  "engine_ok s i e \<longleftrightarrow>
     (eng_state e \<noteq> Idle \<longleftrightarrow> owner s = Some i) \<and>
     (eng_state e = Idle \<longleftrightarrow> eng_config e = None) \<and>
     (eng_state e = Idle \<or> eng_state e = Starting \<longrightarrow> eng_buffer e = None) \<and>
     (eng_state e = Running \<or> eng_state e = Failed \<longrightarrow> eng_buffer e \<noteq> None) \<and>
     (case eng_buffer e of
        None \<Rightarrow> True
      | Some r \<Rightarrow> ring_inv r \<and> length (slots r) = buffer_capacity s \<and>
                  (\<forall>x \<in> set (ring_contents r). snd x = eng_epoch e))"

definition acq_inv :: "('c, 'f) acq_system \<Rightarrow> bool" where
  "acq_inv s \<longleftrightarrow> 0 < buffer_capacity s \<and> (\<forall>i. owner s = Some i \<longrightarrow> i < length (engines s)) \<and>
     (\<forall>i < length (engines s). engine_ok s i (engines s ! i))"

text \<open>A fixture: two engines on a peripheral with one-frame rings and a driver that accepts
  configurations below 8; engine 0 has been started and has produced frame 7.\<close>

definition demo_drv :: "nat \<Rightarrow> bool" where
  "demo_drv c \<longleftrightarrow> c < 8"

definition demo_running :: "(nat, nat) acq_system" where
  "demo_running = engine_produce 0 7 (snd (engine_start demo_drv 0 5 (acq_init 2 1 0)))"

section \<open>Lemmas: the invariant holds initially and after every step\<close>

lemmas engine_ops = engine_claim_def engine_init_def engine_stop_begin_def engine_release_def
  engine_produce_def engine_fail_def engine_consume_def update_engine_def

lemma update_engine_fields [simp]:
  "owner (update_engine i f s) = owner s"
  "buffer_capacity (update_engine i f s) = buffer_capacity s"
  "silence (update_engine i f s) = silence s"
  "length (engines (update_engine i f s)) = length (engines s)"
  by (simp_all add: update_engine_def)

lemma engine_ok_cong:
  "owner s' = owner s \<Longrightarrow> buffer_capacity s' = buffer_capacity s \<Longrightarrow> engine_ok s' i e = engine_ok s i e"
  by (cases "eng_buffer e") (simp_all add: engine_ok_def)

lemma engine_ok_idle:
  "eng_state e = Idle \<Longrightarrow> owner s \<noteq> Some i \<Longrightarrow> engine_ok s i e \<longleftrightarrow> eng_config e = None \<and> eng_buffer e = None"
  by (auto simp: engine_ok_def)

lemma acq_inv_nth:
  "acq_inv s \<Longrightarrow> i < length (engines s) \<Longrightarrow> engine_ok s i (engines s ! i)"
  by (simp add: acq_inv_def)

lemma acq_inv_others_idle:
  "acq_inv s \<Longrightarrow> j < length (engines s) \<Longrightarrow> owner s \<noteq> Some j \<Longrightarrow> eng_state (engines s ! j) = Idle"
  by (auto simp: acq_inv_def engine_ok_def)

lemma acq_inv_others_ok:
  assumes "acq_inv s" and "j < length (engines s)" and "owner s \<noteq> Some j" and "owner s' \<noteq> Some j"
  shows "engine_ok s' j (engines s ! j)"
  using assms acq_inv_nth [OF assms(1,2)] acq_inv_others_idle [OF assms(1-3)]
  by (simp add: engine_ok_idle)

lemma acq_inv_update_engine:
  assumes "acq_inv s" and "i < length (engines s) \<Longrightarrow> engine_ok s i (f (engines s ! i))"
  shows "acq_inv (update_engine i f s)"
proof -
  have eq: "owner (update_engine i f s) = owner s" "buffer_capacity (update_engine i f s) = buffer_capacity s"
    "engines (update_engine i f s) = (engines s)[i := f (engines s ! i)]"
    by (simp_all add: update_engine_def)
  have "engine_ok s j ((engines s)[i := f (engines s ! i)] ! j)" if "j < length (engines s)" for j
    using that assms by (cases "j = i") (simp_all add: acq_inv_def)
  then show ?thesis using assms(1) by (simp add: acq_inv_def eq engine_ok_cong [OF eq(1,2)])
qed

lemma acq_inv_init_state: "0 < cap \<Longrightarrow> acq_inv (acq_init n cap z)"
  by (simp add: acq_inv_def acq_init_def engine_ok_def engine_idle_def)

lemma acq_inv_update_owner:
  assumes "acq_inv s" and "i < length (engines s)" and "owner s \<noteq> None \<Longrightarrow> owner s = Some i"
    and "o' \<noteq> None \<Longrightarrow> o' = Some i" and "engine_ok (s\<lparr>owner := o'\<rparr>) i (f (engines s ! i))"
  shows "acq_inv ((update_engine i f s)\<lparr>owner := o'\<rparr>)"
proof -
  let ?s' = "(update_engine i f s)\<lparr>owner := o'\<rparr>"
  have eq: "owner ?s' = owner (s\<lparr>owner := o'\<rparr>)" "buffer_capacity ?s' = buffer_capacity (s\<lparr>owner := o'\<rparr>)"
    "engines ?s' = (engines s)[i := f (engines s ! i)]"
    by (simp_all add: update_engine_def)
  have "engine_ok (s\<lparr>owner := o'\<rparr>) j ((engines s)[i := f (engines s ! i)] ! j)"
    if "j < length (engines s)" for j
  proof (cases "j = i")
    case True
    then show ?thesis using assms(2,5) by simp
  next
    case False
    then have "owner s \<noteq> Some j" and "owner (s\<lparr>owner := o'\<rparr>) \<noteq> Some j" using assms(3,4) by auto
    from acq_inv_others_ok [OF assms(1) that this] False show ?thesis by simp
  qed
  then show ?thesis using assms(1,2,4)
    by (auto simp: acq_inv_def eq engine_ok_cong [OF eq(1,2)])
qed

lemma acq_inv_owner_engine:
  "acq_inv s \<Longrightarrow> i < length (engines s) \<Longrightarrow> eng_state (engines s ! i) \<noteq> Idle \<Longrightarrow> owner s = Some i"
  by (auto simp: acq_inv_def engine_ok_def)

lemma claim_inv:
  assumes "acq_inv s" and "engine_claim i cfg s = (None, s')"
  shows "acq_inv s'"
proof -
  have i: "i < length (engines s)" and o: "owner s = None"
    and s': "s' = (update_engine i (\<lambda>e. e\<lparr>eng_state := Starting, eng_config := Some cfg\<rparr>) s)\<lparr>owner := Some i\<rparr>"
    using assms(2) by (auto simp: engine_claim_def split: if_splits)
  have "eng_state (engines s ! i) = Idle" using acq_inv_others_idle [OF assms(1) i] o by simp
  with acq_inv_nth [OF assms(1) i] o have "eng_buffer (engines s ! i) = None" by (simp add: engine_ok_idle)
  then show ?thesis unfolding s' using assms(1) i o
    by (intro acq_inv_update_owner) (auto simp: engine_ok_def)
qed

lemma init_inv:
  assumes "acq_inv s" and "i < length (engines s)" and "eng_state (engines s ! i) = Starting"
    and "eng_config (engines s ! i) = Some cfg" and "engine_init drv i cfg s = (res, s')"
  shows "acq_inv s'"
proof -
  have o: "owner s = Some i" using acq_inv_owner_engine [OF assms(1,2)] assms(3) by simp
  have b: "eng_buffer (engines s ! i) = None" using acq_inv_nth [OF assms(1,2)] assms(3) by (simp add: engine_ok_def)
  show ?thesis
  proof (cases "drv cfg")
    case True
    with assms(5) have "s' = update_engine i (\<lambda>e. e\<lparr>eng_state := Running, eng_epoch := Suc (eng_epoch e),
                   eng_buffer := Some (ring_new (buffer_capacity s) (silence s, Suc (eng_epoch e)))\<rparr>) s"
      by (simp add: engine_init_def)
    moreover have "0 < buffer_capacity s" using assms(1) by (simp add: acq_inv_def)
    ultimately show ?thesis using assms(4) o
      by (simp add: acq_inv_update_engine [OF assms(1)] engine_ok_def ring_new_inv)
  next
    case False
    with assms(5) have s': "s' = (update_engine i (\<lambda>e. e\<lparr>eng_state := Idle, eng_config := None\<rparr>) s)\<lparr>owner := None\<rparr>"
      by (simp add: engine_init_def)
    show ?thesis unfolding s' using o b
      by (intro acq_inv_update_owner [OF assms(1,2)]) (simp_all add: engine_ok_def)
  qed
qed

lemma stop_begin_inv: "acq_inv s \<Longrightarrow> acq_inv (engine_stop_begin i s)"
  unfolding engine_stop_begin_def
  by (rule acq_inv_update_engine, assumption) (drule (1) acq_inv_nth, auto simp: engine_ok_def)

lemma release_inv:
  assumes "acq_inv s" and "engine_release i s = (fs, s')"
  shows "acq_inv s'"
proof (cases "i < length (engines s) \<and> (eng_state (engines s ! i) = Stopping \<or> eng_state (engines s ! i) = Failed)")
  case True
  then have i: "i < length (engines s)" and o: "owner s = Some i"
    using acq_inv_owner_engine [OF assms(1)] by auto
  with True assms(2) have s': "s' = (update_engine i (\<lambda>e. e\<lparr>eng_state := Idle, eng_config := None, eng_buffer := None\<rparr>) s)
      \<lparr>owner := None\<rparr>"
    by (simp add: engine_release_def)
  show ?thesis unfolding s' using o
    by (intro acq_inv_update_owner [OF assms(1) i]) (simp_all add: engine_ok_def)
next
  case False
  with assms show ?thesis by (simp add: engine_release_def)
qed

lemma produce_inv: "acq_inv s \<Longrightarrow> acq_inv (engine_produce i x s)"
  unfolding engine_produce_def
proof (rule acq_inv_update_engine)
  fix e assume "acq_inv s" and i: "i < length (engines s)"
  from acq_inv_nth [OF this] show "engine_ok s i
      (case eng_buffer (engines s ! i) of
         None \<Rightarrow> engines s ! i
       | Some r \<Rightarrow> if eng_state (engines s ! i) = Running
                   then (engines s ! i)\<lparr>eng_buffer := Some (ring_push (x, eng_epoch (engines s ! i)) r)\<rparr>
                   else engines s ! i)"
    using ring_push_contents [of _ "(x, eng_epoch (engines s ! i))"]
    by (fastforce simp: engine_ok_def ring_push_inv split: option.splits)
qed

lemma fail_inv: "acq_inv s \<Longrightarrow> acq_inv (engine_fail i s)"
  unfolding engine_fail_def
  by (rule acq_inv_update_engine, assumption) (drule (1) acq_inv_nth, auto simp: engine_ok_def)

lemma consume_inv:
  assumes "acq_inv s" and "engine_consume i s = (v, s')"
  shows "acq_inv s'"
proof (cases "i < length (engines s) \<and> eng_buffer (engines s ! i) \<noteq> None")
  case True
  then obtain r where i: "i < length (engines s)" and b: "eng_buffer (engines s ! i) = Some r" by auto
  obtain r' where p: "ring_pop r = (v, r')" and s': "s' = update_engine i (\<lambda>e. e\<lparr>eng_buffer := Some r'\<rparr>) s"
    using assms(2) i b by (auto simp: engine_consume_def split: prod.splits)
  have ok: "engine_ok s i (engines s ! i)" by (rule acq_inv_nth [OF assms(1) i])
  then have "ring_inv r" using b by (simp add: engine_ok_def)
  from ring_pop_contents [OF this p] ring_pop_inv [OF this] p ok b
  show ?thesis unfolding s'
    by (intro acq_inv_update_engine [OF assms(1)]) (auto simp: engine_ok_def)
next
  case False
  with assms show ?thesis by (cases "i < length (engines s)") (auto simp: engine_consume_def)
qed

lemma acq_step_inv: "acq_step drv s s' \<Longrightarrow> acq_inv s \<Longrightarrow> acq_inv s'"
  by (induction rule: acq_step.induct)
    (blast intro: claim_inv init_inv stop_begin_inv release_inv produce_inv fail_inv consume_inv)+

lemma acq_steps_inv: "(acq_step drv)\<^sup>*\<^sup>* s s' \<Longrightarrow> acq_inv s \<Longrightarrow> acq_inv s'"
  by (induction rule: rtranclp_induct) (auto intro: acq_step_inv)

lemma acq_reach_inv: "acq_reach drv n cap z s \<Longrightarrow> acq_inv s"
  unfolding acq_reach_def by (blast intro: acq_steps_inv acq_inv_init_state)

lemma length_filter_le_one:
  assumes "\<And>j. j < length xs \<Longrightarrow> P (xs ! j) \<Longrightarrow> j = k"
  shows "length (filter P xs) \<le> 1"
proof -
  have "{j. j < length xs \<and> P (xs ! j)} \<subseteq> {k}" using assms by blast
  then have "card {j. j < length xs \<and> P (xs ! j)} \<le> 1" using card_mono [of "{k}"] by fastforce
  then show ?thesis by (simp add: length_filter_conv_card)
qed

lemma acq_step_epoch_mono:
  "acq_step drv s s' \<Longrightarrow> j < length (engines s) \<Longrightarrow>
   length (engines s') = length (engines s) \<and> eng_epoch (engines s ! j) \<le> eng_epoch (engines s' ! j)"
  by (induction rule: acq_step.induct)
    (auto simp: engine_ops nth_list_update_if split: if_splits option.splits prod.splits)

section \<open>Lemmas: start and stop as sequences of steps\<close>

lemma engine_idle_reset:
  "eng_state e = Idle \<Longrightarrow> eng_config e = None \<Longrightarrow> e\<lparr>eng_state := Idle, eng_config := None\<rparr> = e"
  by (cases e) simp

lemma engine_start_steps:
  assumes "engine_start drv i cfg s = (res, s')"
  shows "(acq_step drv)\<^sup>*\<^sup>* s s'"
proof (cases "engine_claim i cfg s")
  case (Pair r s1)
  show ?thesis
  proof (cases r)
    case None
    with Pair have i: "i < length (engines s)" and s1: "s1 = (update_engine i (\<lambda>e. e\<lparr>eng_state := Starting, eng_config := Some cfg\<rparr>) s)\<lparr>owner := Some i\<rparr>"
      by (auto simp: engine_claim_def split: if_splits)
    have "acq_step drv s s1" using Pair None by (blast intro: acq_step.claim)
    moreover have "acq_step drv s1 s'"
      using assms Pair None i s1 by (intro acq_step.init [of i]) (simp_all add: engine_start_def update_engine_def)
    ultimately show ?thesis by simp
  next
    case (Some err)
    with Pair assms show ?thesis by (auto simp: engine_start_def engine_claim_def split: if_splits)
  qed
qed

lemma engine_stop_steps: "(acq_step drv)\<^sup>*\<^sup>* s (snd (engine_stop i s))"
proof -
  have "acq_step drv s (engine_stop_begin i s)" by (rule acq_step.stop_begin)
  moreover have "acq_step drv (engine_stop_begin i s) (snd (engine_stop i s))"
    by (rule acq_step.release [of i _ "fst (engine_stop i s)"]) (simp add: engine_stop_def)
  ultimately show ?thesis by simp
qed

lemma update_engine_id:
  "f (engines s ! i) = engines s ! i \<Longrightarrow> update_engine i f s = s"
  by (simp add: update_engine_def)

lemma engine_stop_begin_fields:
  assumes "i < length (engines s)"
  shows "eng_state (engines (engine_stop_begin i s) ! i) =
           (if eng_state (engines s ! i) = Starting \<or> eng_state (engines s ! i) = Running
            then Stopping else eng_state (engines s ! i))"
    and "eng_buffer (engines (engine_stop_begin i s) ! i) = eng_buffer (engines s ! i)"
    and "update_engine i (\<lambda>e. e\<lparr>eng_state := Idle, eng_config := None, eng_buffer := None\<rparr>) (engine_stop_begin i s) =
         update_engine i (\<lambda>e. e\<lparr>eng_state := Idle, eng_config := None, eng_buffer := None\<rparr>) s"
  using assms by (simp_all add: engine_stop_begin_def update_engine_def)

lemma engine_stop_eq:
  assumes "acq_inv s" and i: "i < length (engines s)"
  shows "engine_stop i s =
    (engine_frames (engines s ! i),
     (update_engine i (\<lambda>e. e\<lparr>eng_state := Idle, eng_config := None, eng_buffer := None\<rparr>) s)
       \<lparr>owner := (if owner s = Some i then None else owner s)\<rparr>)"
proof -
  have ok: "engine_ok s i (engines s ! i)" by (rule acq_inv_nth [OF assms])
  show ?thesis
  proof (cases "eng_state (engines s ! i) = Idle")
    case True
    with ok have c: "eng_config (engines s ! i) = None" and b: "eng_buffer (engines s ! i) = None"
      and o: "owner s \<noteq> Some i"
      by (auto simp: engine_ok_def)
    have "engine_stop_begin i s = s" using True unfolding engine_stop_begin_def by (simp add: update_engine_id)
    moreover have "update_engine i (\<lambda>e. e\<lparr>eng_state := Idle, eng_config := None, eng_buffer := None\<rparr>) s = s"
      using True c b by (intro update_engine_id) (cases "engines s ! i", simp)
    ultimately show ?thesis using True b o by (simp add: engine_stop_def engine_release_def engine_frames_def)
  next
    case False
    then have st: "eng_state (engines (engine_stop_begin i s) ! i) = Stopping \<or>
        eng_state (engines (engine_stop_begin i s) ! i) = Failed" and o: "owner s = Some i"
      using engine_stop_begin_fields(1) [OF i] acq_inv_owner_engine [OF assms] by (cases "eng_state (engines s ! i)", auto)+
    have drain: "(case eng_buffer (engines s ! i) of None \<Rightarrow> [] | Some r \<Rightarrow> fst (ring_drain (wr r - rd r) r)) =
        engine_frames (engines s ! i)"
      using ok by (auto simp: engine_frames_def engine_ok_def ring_drain_all split: option.splits)
    show ?thesis using st i o drain
      by (simp add: engine_stop_def engine_release_def engine_stop_begin_fields [OF i] del: update_engine_fields)
        (simp add: engine_stop_begin_def)
  qed
qed

lemma acq_step_length: "acq_step drv s s' \<Longrightarrow> length (engines s') = length (engines s)"
  by (induction rule: acq_step.induct) (auto simp: engine_ops split: if_splits option.splits prod.splits)

lemma acq_steps_length: "(acq_step drv)\<^sup>*\<^sup>* s s' \<Longrightarrow> length (engines s') = length (engines s)"
  by (induction rule: rtranclp_induct) (auto dest: acq_step_length)

lemma acq_steps_epoch_mono:
  "(acq_step drv)\<^sup>*\<^sup>* s s' \<Longrightarrow> j < length (engines s) \<Longrightarrow>
   length (engines s') = length (engines s) \<and> eng_epoch (engines s ! j) \<le> eng_epoch (engines s' ! j)"
proof (induction rule: rtranclp_induct)
  case (step s' s'')
  then show ?case using acq_step_epoch_mono [OF step.hyps(2), of j] by simp
qed simp

lemma acq_reach_steps: "acq_reach drv n cap z s \<Longrightarrow> (acq_step drv)\<^sup>*\<^sup>* s s' \<Longrightarrow> acq_reach drv n cap z s'"
  unfolding acq_reach_def by (auto intro: rtranclp_trans)

lemma engine_frames_epoch:
  "acq_inv s \<Longrightarrow> i < length (engines s) \<Longrightarrow> y \<in> set (engine_frames (engines s ! i)) \<Longrightarrow>
   snd y = eng_epoch (engines s ! i)"
  by (drule (1) acq_inv_nth) (auto simp: engine_ok_def engine_frames_def split: option.splits)

lemma engine_consume_epoch:
  assumes "acq_inv s" and "engine_consume i s = (Some x, s')"
  shows "i < length (engines s) \<and> x \<in> set (engine_frames (engines s ! i))"
proof -
  obtain r r' where i: "i < length (engines s)" and b: "eng_buffer (engines s ! i) = Some r"
    and p: "ring_pop r = (Some x, r')"
    using assms(2) by (auto simp: engine_consume_def split: if_splits option.splits prod.splits)
  have "ring_inv r" using acq_inv_nth [OF assms(1) i] b by (simp add: engine_ok_def)
  from ring_pop_contents [OF this p] i b show ?thesis by (simp add: engine_frames_def)
qed

lemma engine_start_None:
  "engine_start drv i cfg s = (None, s') \<Longrightarrow>
   i < length (engines s) \<and> owner s = None \<and> drv cfg \<and> owner s' = Some i \<and>
   length (engines s') = length (engines s) \<and> buffer_capacity s' = buffer_capacity s \<and>
   eng_state (engines s' ! i) = Running \<and> eng_config (engines s' ! i) = Some cfg \<and>
   eng_epoch (engines s' ! i) = Suc (eng_epoch (engines s ! i)) \<and>
   eng_buffer (engines s' ! i) = Some (ring_new (buffer_capacity s) (silence s, Suc (eng_epoch (engines s ! i)))) \<and>
   (\<forall>j. j \<noteq> i \<longrightarrow> engines s' ! j = engines s ! j)"
  by (auto simp: engine_start_def engine_claim_def engine_init_def update_engine_def split: if_splits)

lemma engine_produce_idle:
  "eng_buffer (engines s ! i) = None \<Longrightarrow> engine_produce i x s = s"
  unfolding engine_produce_def by (simp add: update_engine_id)

lemma acq_reach_init: "0 < cap \<Longrightarrow> acq_reach drv n cap z (acq_init n cap z)"
  by (simp add: acq_reach_def)

lemma acq_reach_start:
  "acq_reach drv n cap z s \<Longrightarrow> acq_reach drv n cap z (snd (engine_start drv i cfg s))"
  by (rule acq_reach_steps, assumption) (rule engine_start_steps [of drv i cfg s "fst (engine_start drv i cfg s)"], simp)

lemma acq_reach_produce:
  "acq_reach drv n cap z s \<Longrightarrow> acq_reach drv n cap z (engine_produce i x s)"
  by (erule acq_reach_steps) (blast intro: acq_step.produce)

lemma acq_reach_demo_running: "acq_reach demo_drv 2 1 0 demo_running"
  unfolding demo_running_def by (intro acq_reach_produce acq_reach_start acq_reach_init) simp

lemmas demo_defs = demo_running_def demo_drv_def engine_start_def engine_claim_def engine_init_def
  engine_produce_def acq_init_def engine_idle_def update_engine_def ring_new_def ring_push_def
  engine_stop_def engine_stop_begin_def engine_release_def engine_consume_def ring_pop_def
  engine_frames_def ring_contents_def

lemma update_engine_twice:
  "update_engine i g (update_engine i f s) = update_engine i (g \<circ> f) s"
  by (cases "i < length (engines s)") (simp_all add: update_engine_def list_update_beyond)

lemma update_engine_nth_if:
  "j < length (engines s) \<Longrightarrow>
   engines (update_engine i f s) ! j = (if i = j then f (engines s ! j) else engines s ! j)"
  by (simp add: update_engine_def nth_list_update_if)

lemma update_engine_nth:
  "i < length (engines s) \<Longrightarrow> engines (update_engine i f s) ! i = f (engines s ! i)"
  by (simp add: update_engine_def)

lemma engine_produce_running:
  "eng_state (engines s ! i) = Running \<Longrightarrow> eng_buffer (engines s ! i) = Some r \<Longrightarrow>
   engine_produce i x s = update_engine i (\<lambda>e. e\<lparr>eng_buffer := Some (ring_push (x, eng_epoch (engines s ! i)) r)\<rparr>) s"
  by (cases "i < length (engines s)") (simp_all add: engine_produce_def update_engine_def)

lemma engine_consume_buffer:
  "i < length (engines s) \<Longrightarrow> eng_buffer (engines s ! i) = Some r \<Longrightarrow>
   engine_consume i s = (fst (ring_pop r), update_engine i (\<lambda>e. e\<lparr>eng_buffer := Some (snd (ring_pop r))\<rparr>) s)"
  by (simp add: engine_consume_def split: prod.splits)

section \<open>Properties of the engine\<close>

text \<open>In every reachable state of the engines that share the peripheral, at most one
  engine is away from \<open>Idle\<close>, and an engine that is not \<open>Idle\<close> is the owner of the
  peripheral (spec section 5, one engine per peripheral).\<close>

theorem acq_reach_mutual_exclusion:
  assumes "acq_reach drv n cap z s"
  shows "length (filter (\<lambda>e. eng_state e \<noteq> Idle) (engines s)) \<le> 1 \<and>
    (\<forall>i < length (engines s). eng_state (engines s ! i) \<noteq> Idle \<longrightarrow> owner s = Some i)"
proof -
  have inv: "acq_inv s" by (rule acq_reach_inv [OF assms])
  have own: "owner s = Some i" if "i < length (engines s)" and "eng_state (engines s ! i) \<noteq> Idle" for i
    using acq_inv_owner_engine [OF inv that] .
  have "length (filter (\<lambda>e. eng_state e \<noteq> Idle) (engines s)) \<le> 1"
    by (rule length_filter_le_one [where k = "the (owner s)"]) (simp add: own)
  with own show ?thesis by blast
qed

theorem acq_reach_mutual_exclusion_witness:
  "acq_reach demo_drv 2 1 0 demo_running \<and>
   length (filter (\<lambda>e. eng_state e \<noteq> Idle) (engines demo_running)) \<le> 1 \<and>
   eng_state (engines demo_running ! 0) = Running \<and> owner demo_running = Some 0"
  using acq_reach_mutual_exclusion [OF acq_reach_demo_running] acq_reach_demo_running
  by (simp add: demo_defs)

text \<open>A \<open>start\<close> that fails leaves the whole system exactly as it found it (no partial
  claim of the peripheral, spec sections 4.3 and 4.6), and the error is \<open>PeripheralBusy\<close> when
  the peripheral is owned, \<open>PeripheralInitError\<close> when the driver refuses the parameters.\<close>

theorem engine_start_failure_rolls_back:
  assumes "acq_inv s" and "engine_start drv i cfg s = (Some err, s')"
  shows "s' = s \<and>
    err = (if length (engines s) \<le> i then NoSuchEngine i
           else if owner s \<noteq> None then PeripheralBusy else PeripheralInitError)"
proof (cases "length (engines s) \<le> i \<or> owner s \<noteq> None")
  case True
  with assms(2) show ?thesis by (auto simp: engine_start_def engine_claim_def)
next
  case False
  then have i: "i < length (engines s)" and o: "owner s = None" by auto
  note inv = assms(1)
  have idle: "eng_state (engines s ! i) = Idle" using acq_inv_others_idle [OF inv i] o by simp
  with acq_inv_nth [OF inv i] o have c: "eng_config (engines s ! i) = None" by (simp add: engine_ok_def)
  have "\<not> drv cfg" using assms(2) i o by (auto simp: engine_start_def engine_claim_def engine_init_def)
  with assms(2) i o have "err = PeripheralInitError \<and>
      s' = s\<lparr>engines := (engines s)[i := (engines s ! i)\<lparr>eng_state := Idle, eng_config := None\<rparr>],
      owner := None\<rparr>"
    by (auto simp: engine_start_def engine_claim_def engine_init_def update_engine_def)
  with idle c i o show ?thesis by (cases s) (simp add: engine_idle_reset)
qed

theorem engine_start_failure_rolls_back_witness:
  "acq_reach demo_drv 2 1 (0::nat) (acq_init 2 1 0) \<and>
   engine_start demo_drv 0 9 (acq_init 2 1 (0::nat)) = (Some PeripheralInitError, acq_init 2 1 0) \<and>
   engine_start demo_drv 1 3 demo_running = (Some PeripheralBusy, demo_running)"
proof -
  have r0: "acq_reach demo_drv 2 1 (0::nat) (acq_init 2 1 0)" by (rule acq_reach_init) simp
  have "engine_start demo_drv 0 9 (acq_init 2 1 (0::nat)) = (Some PeripheralInitError, acq_init 2 1 0)"
    using engine_start_failure_rolls_back [OF acq_reach_inv [OF r0], of demo_drv 0 9 PeripheralInitError "acq_init 2 1 0"]
    by (simp add: demo_defs list_update_same_conv)
  moreover have "engine_start demo_drv 1 3 demo_running = (Some PeripheralBusy, demo_running)"
    using engine_start_failure_rolls_back [OF acq_reach_inv [OF acq_reach_demo_running], of demo_drv 1 3 PeripheralBusy demo_running]
    by (simp add: demo_defs)
  ultimately show ?thesis using r0 by simp
qed

text \<open>Once \<open>stop\<close> has returned, the engine is \<open>Idle\<close> without a ring, the peripheral
  is released, a producer interrupt has no effect any more, the frames still buffered were
  handed back in order, and no other engine was touched (spec sections 4.3 and 5).\<close>

theorem engine_stop_drains_and_silences:
  assumes "acq_reach drv n cap z s" and "i < length (engines s)" and "engine_stop i s = (fs, s')"
  shows "fs = engine_frames (engines s ! i) \<and> eng_state (engines s' ! i) = Idle \<and> owner s' \<noteq> Some i \<and>
    (\<forall>x. engine_produce i x s' = s') \<and> (\<forall>j. j \<noteq> i \<longrightarrow> engines s' ! j = engines s ! j)"
proof -
  have eq: "engine_stop i s = (engine_frames (engines s ! i),
     (update_engine i (\<lambda>e. e\<lparr>eng_state := Idle, eng_config := None, eng_buffer := None\<rparr>) s)
       \<lparr>owner := (if owner s = Some i then None else owner s)\<rparr>)"
    by (rule engine_stop_eq [OF acq_reach_inv [OF assms(1)] assms(2)])
  with assms(2,3) have "eng_buffer (engines s' ! i) = None" by (auto simp: update_engine_def)
  with eq assms(2,3) show ?thesis by (auto simp: update_engine_def engine_produce_idle)
qed

theorem engine_stop_drains_and_silences_witness:
  "fst (engine_stop 0 demo_running) = [(7, 1)] \<and> owner (snd (engine_stop 0 demo_running)) = None \<and>
   engine_produce 0 8 (snd (engine_stop 0 demo_running)) = snd (engine_stop 0 demo_running)"
  using engine_stop_drains_and_silences [OF acq_reach_demo_running, of 0 "fst (engine_stop 0 demo_running)"
      "snd (engine_stop 0 demo_running)"]
  by (simp add: demo_defs)

text \<open>After \<open>stop\<close> and a new \<open>start\<close> of the same engine, every frame the consumer
  takes from it, whatever steps of any engine come in between, is strictly newer than every
  frame that was buffered before the stop: no frame from before the stop is delivered after
  the restart (spec section 8).\<close>

theorem engine_restart_no_stale_frames:
  assumes "acq_reach drv n cap z s" and "engine_stop i s = (fs, s1)"
    and "engine_start drv i cfg s1 = (None, s2)" and "(acq_step drv)\<^sup>*\<^sup>* s2 s3"
    and "engine_consume i s3 = (Some x, s4)"
  shows "(\<forall>y \<in> set fs. snd y \<le> eng_epoch (engines s ! i)) \<and> eng_epoch (engines s ! i) < snd x"
proof -
  have inv: "acq_inv s" by (rule acq_reach_inv [OF assms(1)])
  have s1: "(acq_step drv)\<^sup>*\<^sup>* s s1" using engine_stop_steps [of drv s i] assms(2) by simp
  have st: "i < length (engines s1) \<and> eng_epoch (engines s2 ! i) = Suc (eng_epoch (engines s1 ! i))"
    using engine_start_None [OF assms(3)] by simp
  then have i: "i < length (engines s)" using acq_steps_length [OF s1] by simp
  have stop: "engine_stop i s = (engine_frames (engines s ! i),
     (update_engine i (\<lambda>e. e\<lparr>eng_state := Idle, eng_config := None, eng_buffer := None\<rparr>) s)
       \<lparr>owner := (if owner s = Some i then None else owner s)\<rparr>)"
    by (rule engine_stop_eq [OF inv i])
  then have ep1: "eng_epoch (engines s1 ! i) = eng_epoch (engines s ! i)" and fs: "fs = engine_frames (engines s ! i)"
    using assms(2) i by (auto simp: update_engine_def)
  have s2: "(acq_step drv)\<^sup>*\<^sup>* s1 s2" by (rule engine_start_steps [OF assms(3)])
  have r3: "acq_reach drv n cap z s3"
    using assms(1,4) s1 s2 by (blast intro: acq_reach_steps)
  have ep3: "eng_epoch (engines s2 ! i) \<le> eng_epoch (engines s3 ! i)"
    using acq_steps_epoch_mono [OF assms(4), of i] st acq_steps_length [OF s2] by simp
  from engine_consume_epoch [OF acq_reach_inv [OF r3] assms(5)] acq_reach_inv [OF r3]
  have "snd x = eng_epoch (engines s3 ! i)" by (blast intro: engine_frames_epoch)
  moreover have "\<forall>y \<in> set fs. snd y = eng_epoch (engines s ! i)"
    using fs engine_frames_epoch [OF inv i] by simp
  ultimately show ?thesis using st ep1 ep3 by simp
qed

theorem engine_restart_no_stale_frames_witness:
  "fst (engine_stop 0 demo_running) = [(7, 1)] \<and>
   fst (engine_start demo_drv 0 5 (snd (engine_stop 0 demo_running))) = None \<and>
   fst (engine_consume 0 (engine_produce 0 9 (snd (engine_start demo_drv 0 5 (snd (engine_stop 0 demo_running))))))
     = Some (9, 2) \<and>
   eng_epoch (engines demo_running ! 0) < 2"
proof -
  let ?s1 = "snd (engine_stop 0 demo_running)"
  let ?s2 = "snd (engine_start demo_drv 0 5 ?s1)"
  let ?s3 = "engine_produce 0 9 ?s2"
  have step: "(acq_step demo_drv)\<^sup>*\<^sup>* ?s2 ?s3" by (blast intro: acq_step.produce)
  have facts: "fst (engine_stop 0 demo_running) = [(7, 1)]" "fst (engine_start demo_drv 0 5 ?s1) = None"
      "fst (engine_consume 0 ?s3) = Some (9, 2)"
    by (simp_all add: demo_defs)
  have "eng_epoch (engines demo_running ! 0) < snd (9::nat, 2::nat)"
    using engine_restart_no_stale_frames [OF acq_reach_demo_running, of 0 "[(7, 1)]" ?s1 5 ?s2 ?s3
        "(9, 2)" "snd (engine_consume 0 ?s3)"] step facts
    by (metis prod.collapse)
  with facts show ?thesis by simp
qed

end
