(* ===== verification/Controller.thy ===== *)
theory Controller
  imports Capability Normalizer Engine
begin

text \<open>
  The pipeline controller of spec section 4.6 (C++ runtime, not in \<open>src/\<close>; modelled from
  the spec). It is configured by what the code generator of \<open>src/\<close> emits: \<open>setup\<close> runs a
  platform's build function (\<open>i2s_build\<close> or \<open>adf_build\<close>: schema, then \<open>to_code\<close>) and keeps
  the generated statements as the engine configuration, the gain they set and the capability
  offer of their registration. \<open>start\<close> negotiates against that offer and starts the engine;
  the steady-state loop pops one frame per \<open>Poll\<close>, normalises it and hands it to the
  downstream \<open>acceptFrame\<close> (the list \<open>delivered\<close>); \<open>stop\<close> stops the engine and forwards or
  discards the drained frames. A run is a list of events, the producer's interrupts and
  the peripheral's faults among them, applied in order.
\<close>

datatype pipeline_state = Uninitialized | Configured | PipelineRunning | Stopped | PipelineFailed

record 'f pipeline =
  pstate :: pipeline_state
  p_engine :: nat
  p_config :: "cg_stmt list option"
  p_gain :: nat
  p_offer :: "capability_offer option"
  p_channels :: nat
  delivered :: "'f list"

type_synonym 'a mic_pipeline = "'a word list pipeline"

type_synonym 'a mic_system = "(cg_stmt list, 'a word list) acq_system"

type_synonym 'r mic_build = "'r \<Rightarrow> error list + cg_stmt list"

text \<open>The gain a generated component sets (\<open>set_gain_log2\<close>); none is gain 0.\<close>

fun gain_of_stmts :: "cg_stmt list \<Rightarrow> nat" where
  "gain_of_stmts [] = 0"
| "gain_of_stmts (SetGainLog2 g # ss) = nat g"
| "gain_of_stmts (s # ss) = gain_of_stmts ss"

definition pipeline_init :: "nat \<Rightarrow> 'f pipeline" where
  "pipeline_init k =
     \<lparr>pstate = Uninitialized, p_engine = k, p_config = None, p_gain = 0, p_offer = None,
      p_channels = 0, delivered = []\<rparr>"

definition ctrl_setup :: "'r mic_build \<Rightarrow> 'r \<Rightarrow> 'f pipeline \<Rightarrow> error list option \<times> 'f pipeline" where
  "ctrl_setup build r pl =
     (if pstate pl \<noteq> Uninitialized then (Some [InvalidPipelineState], pl)
      else case build r of
        Inl es \<Rightarrow> (Some es, pl)
      | Inr ss \<Rightarrow> (None, pl\<lparr>pstate := Configured, p_config := Some ss, p_gain := gain_of_stmts ss,
                           p_offer := Some (offer_of_registration (last ss))\<rparr>))"

definition ctrl_start ::
  "(cg_stmt list \<Rightarrow> bool) \<Rightarrow> nat option \<Rightarrow> 'a::len mic_pipeline \<Rightarrow> 'a mic_system \<Rightarrow>
   error list option \<times> 'a mic_pipeline \<times> 'a mic_system" where
  "ctrl_start drv req pl s =
     (case (p_config pl, p_offer pl) of
        (Some ss, Some off) \<Rightarrow>
          if pstate pl = Configured \<or> pstate pl = Stopped \<or> pstate pl = PipelineFailed then
            (case negotiate off req of
               Inl e \<Rightarrow> (Some [e], pl, s)
             | Inr m \<Rightarrow>
                 (case engine_start drv (p_engine pl) ss s of
                    (Some e, s') \<Rightarrow> (Some [e], pl\<lparr>pstate := PipelineFailed\<rparr>, s')
                  | (None, s') \<Rightarrow> (None, pl\<lparr>pstate := PipelineRunning, p_channels := m\<rparr>, s')))
          else (Some [InvalidPipelineState], pl, s)
      | _ \<Rightarrow> (Some [InvalidPipelineState], pl, s))"

definition ctrl_poll :: "'a::len mic_pipeline \<Rightarrow> 'a mic_system \<Rightarrow> 'a mic_pipeline \<times> 'a mic_system" where
  "ctrl_poll pl s =
     (if pstate pl = PipelineRunning then
        (case engine_consume (p_engine pl) s of
           (Some (fr, _), s') \<Rightarrow>
             (pl\<lparr>delivered := delivered pl @ [normalize_frame (p_channels pl) (p_gain pl) fr]\<rparr>, s')
         | (None, s') \<Rightarrow> (pl, s'))
      else (pl, s))"

definition ctrl_stop :: "bool \<Rightarrow> 'a::len mic_pipeline \<Rightarrow> 'a mic_system \<Rightarrow> 'a mic_pipeline \<times> 'a mic_system" where
  "ctrl_stop forward pl s =
     (if pstate pl = PipelineRunning \<or> pstate pl = PipelineFailed then
        (let (fs, s') = engine_stop (p_engine pl) s
         in (pl\<lparr>pstate := Stopped,
                delivered := delivered pl @
                  (if forward then map (normalize_frame (p_channels pl) (p_gain pl) \<circ> fst) fs else [])\<rparr>,
             s'))
      else (pl, s))"

datatype ('r, 'f) ctrl_event = Setup 'r | Start "nat option" | Interrupt 'f | HwFault | Poll | Stop bool

fun ctrl_step ::
  "'r mic_build \<Rightarrow> (cg_stmt list \<Rightarrow> bool) \<Rightarrow> ('r, 'a::len word list) ctrl_event \<Rightarrow>
   'a mic_pipeline \<times> 'a mic_system \<Rightarrow> 'a mic_pipeline \<times> 'a mic_system" where
  "ctrl_step build drv (Setup r) (pl, s) = (snd (ctrl_setup build r pl), s)"
| "ctrl_step build drv (Start req) (pl, s) = snd (ctrl_start drv req pl s)"
| "ctrl_step build drv (Interrupt x) (pl, s) = (pl, engine_produce (p_engine pl) x s)"
| "ctrl_step build drv HwFault (pl, s) = (pl, engine_fail (p_engine pl) s)"
| "ctrl_step build drv Poll (pl, s) = ctrl_poll pl s"
| "ctrl_step build drv (Stop forward) (pl, s) = ctrl_stop forward pl s"

fun ctrl_run ::
  "'r mic_build \<Rightarrow> (cg_stmt list \<Rightarrow> bool) \<Rightarrow> 'a::len mic_pipeline \<times> 'a mic_system \<Rightarrow>
   ('r, 'a word list) ctrl_event list \<Rightarrow> 'a mic_pipeline \<times> 'a mic_system" where
  "ctrl_run build drv st [] = st"
| "ctrl_run build drv st (e # es) = ctrl_run build drv (ctrl_step build drv e st) es"

text \<open>Several pipelines, each with its own engine, share the engine system; an event is
  addressed to one pipeline, and the runs interleave their events arbitrarily.\<close>

fun multi_step ::
  "'r mic_build \<Rightarrow> (cg_stmt list \<Rightarrow> bool) \<Rightarrow> nat \<times> ('r, 'a::len word list) ctrl_event \<Rightarrow>
   'a mic_pipeline list \<times> 'a mic_system \<Rightarrow> 'a mic_pipeline list \<times> 'a mic_system" where
  "multi_step build drv (j, e) (pls, s) =
     (if j < length pls then
        (case ctrl_step build drv e (pls ! j, s) of (pl', s') \<Rightarrow> (pls[j := pl'], s'))
      else (pls, s))"

fun multi_run ::
  "'r mic_build \<Rightarrow> (cg_stmt list \<Rightarrow> bool) \<Rightarrow> 'a::len mic_pipeline list \<times> 'a mic_system \<Rightarrow>
   (nat \<times> ('r, 'a word list) ctrl_event) list \<Rightarrow> 'a mic_pipeline list \<times> 'a mic_system" where
  "multi_run build drv st [] = st"
| "multi_run build drv st (e # es) = multi_run build drv (multi_step build drv e st) es"

text \<open>The producer's frames in a run, and the events of the steady state.\<close>

fun frames_of :: "('r, 'f) ctrl_event list \<Rightarrow> 'f list" where
  "frames_of [] = []"
| "frames_of (Interrupt x # es) = x # frames_of es"
| "frames_of (e # es) = frames_of es"

fun data_event :: "('r, 'f) ctrl_event \<Rightarrow> bool" where
  "data_event (Interrupt x) = True"
| "data_event Poll = True"
| "data_event e = False"

text \<open>The buffer events a steady-state run performs on the engine's ring, frames tagged with
  the engine's epoch.\<close>

fun buf_events :: "nat \<Rightarrow> ('r, 'f) ctrl_event list \<Rightarrow> ('f \<times> nat) buf_event list" where
  "buf_events ep [] = []"
| "buf_events ep (Interrupt x # es) = Produce (x, ep) # buf_events ep es"
| "buf_events ep (e # es) = Consume # buf_events ep es"

text \<open>Fixtures: an ADF microphone with gain 2 on 8-bit samples and a two-frame ring, fed
  four frames of which the third finds the ring full; and an internal-ADC I2S microphone on
  pin 34 of an ESP32 that is stopped, forwarding what it buffered, and started again.\<close>

definition demo_adf :: raw_adf_config where
  "demo_adf = \<lparr>raw_gain_log2 = Some 2\<rparr>"

definition demo_events :: "(raw_adf_config, 8 word list) ctrl_event list" where
  "demo_events = [Interrupt [3], Interrupt [100], Interrupt [5], Poll, Interrupt [7], Poll, Poll, Poll]"

definition demo_run :: "8 mic_pipeline \<times> 8 mic_system" where
  "demo_run = ctrl_run (adf_build [''audio_device'']) (\<lambda>ss. True) (pipeline_init 0, acq_init 1 2 [])
     (Setup demo_adf # Start None # demo_events)"

definition demo_i2s_pre :: "(raw_mic_config, 8 word list) ctrl_event list" where
  "demo_i2s_pre = [Setup mic_internal_34, Start None, Interrupt [1], Interrupt [2]]"

definition demo_i2s_post :: "(raw_mic_config, 8 word list) ctrl_event list" where
  "demo_i2s_post = [Interrupt [9], Poll]"

definition demo_i2s_run :: "8 mic_pipeline \<times> 8 mic_system" where
  "demo_i2s_run = ctrl_run (i2s_build (example_platform VARIANT_ESP32) [''audio_device'']) (\<lambda>ss. True)
     (pipeline_init 0, acq_init 1 2 []) (demo_i2s_pre @ Stop True # Start None # demo_i2s_post)"

definition demo_two_run :: "8 mic_pipeline \<times> 8 mic_system" where
  "demo_two_run = ctrl_run (i2s_build (example_platform VARIANT_ESP32) [''audio_device'']) (\<lambda>ss. True)
     (pipeline_init 0, acq_init 2 2 []) [Setup mic_internal_34, Start None]"

definition demo_multi_events :: "(nat \<times> (raw_mic_config, 8 word list) ctrl_event) list" where
  "demo_multi_events =
     [(0, Setup mic_internal_34), (1, Setup mic_internal_34), (0, Start None), (1, Start None),
      (0, Interrupt [1]), (1, Interrupt [2]), (0, Poll), (1, Poll)]"

definition demo_multi_run :: "8 mic_pipeline list \<times> 8 mic_system" where
  "demo_multi_run = multi_run (i2s_build (example_platform VARIANT_ESP32) [''audio_device'']) (\<lambda>ss. True)
     (map pipeline_init [0..<2], acq_init 2 2 []) demo_multi_events"

text \<open>What a pipeline run keeps: a configuration is one that the build function accepted
  for one of the inputs \<open>R\<close> set up so far, and a running pipeline holds the peripheral with
  its engine configured by exactly those generated statements.\<close>

definition pipe_inv :: "'r mic_build \<Rightarrow> 'r set \<Rightarrow> 'a::len mic_pipeline \<Rightarrow> 'a mic_system \<Rightarrow> bool" where
  "pipe_inv build R pl s \<longleftrightarrow>
     (\<forall>ss. p_config pl = Some ss \<longrightarrow> (\<exists>r \<in> R. build r = Inr ss)) \<and>
     (pstate pl = PipelineRunning \<longrightarrow>
        p_engine pl < length (engines s) \<and> owner s = Some (p_engine pl) \<and>
        eng_config (engines s ! p_engine pl) = p_config pl \<and> p_config pl \<noteq> None \<and>
        (eng_state (engines s ! p_engine pl) = Running \<or> eng_state (engines s ! p_engine pl) = Failed))"

text \<open>For several pipelines: pipeline \<open>j\<close> drives engine \<open>j\<close> and keeps \<open>pipe_inv\<close> for
  the inputs \<open>R j\<close> set up through it.\<close>

definition multi_inv ::
  "'r mic_build \<Rightarrow> (nat \<Rightarrow> 'r set) \<Rightarrow> 'a::len mic_pipeline list \<Rightarrow> 'a mic_system \<Rightarrow> bool" where
  "multi_inv build R pls s \<longleftrightarrow> (\<forall>j < length pls. p_engine (pls ! j) = j \<and> pipe_inv build (R j) (pls ! j) s)"

section \<open>Lemmas: runs and the steady state\<close>

lemma ctrl_run_append:
  "ctrl_run build drv st (xs @ ys) = ctrl_run build drv (ctrl_run build drv st xs) ys"
  by (induction xs arbitrary: st) simp_all

text \<open>In the steady state the controller and the engine's producer drive the engine's ring
  exactly as the buffer events of the run drive the ring on its own: the frames it hands
  on are those the ring run returns, and the ring ends where that run ends.\<close>

lemma ctrl_run_steady:
  assumes "\<forall>e \<in> set es. data_event e" and "pstate pl = PipelineRunning"
    and "p_engine pl < length (engines s)" and "eng_state (engines s ! p_engine pl) = Running"
    and "eng_buffer (engines s ! p_engine pl) = Some r"
  shows "ctrl_run build drv (pl, s) es =
    (pl\<lparr>delivered := delivered pl @ map (normalize_frame (p_channels pl) (p_gain pl) \<circ> fst)
          (fst (ring_run r (buf_events (eng_epoch (engines s ! p_engine pl)) es)))\<rparr>,
     update_engine (p_engine pl)
       (\<lambda>e. e\<lparr>eng_buffer := Some (snd (ring_run r (buf_events (eng_epoch (engines s ! p_engine pl)) es)))\<rparr>) s)"
  using assms
proof (induction es arbitrary: pl s r)
  case Nil
  then show ?case by (simp add: update_engine_id)
next
  case (Cons e es)
  let ?k = "p_engine pl"
  let ?ep = "eng_epoch (engines s ! ?k)"
  from Cons.prems(1) consider x where "e = Interrupt x" | "e = Poll" by (cases e) auto
  then show ?case
  proof cases
    case (1 x)
    let ?s1 = "update_engine ?k (\<lambda>e. e\<lparr>eng_buffer := Some (ring_push (x, ?ep) r)\<rparr>) s"
    from Cons.IH [of pl ?s1 "ring_push (x, ?ep) r"] 1 Cons.prems show ?thesis
      by (simp add: engine_produce_running update_engine_nth update_engine_twice comp_def)
  next
    case 2
    obtain v r1 where p: "ring_pop r = (v, r1)" by fastforce
    let ?s1 = "update_engine ?k (\<lambda>e. e\<lparr>eng_buffer := Some r1\<rparr>) s"
    let ?pl1 = "case v of None \<Rightarrow> pl
        | Some (fr, t) \<Rightarrow> pl\<lparr>delivered := delivered pl @ [normalize_frame (p_channels pl) (p_gain pl) fr]\<rparr>"
    have step: "ctrl_step build drv Poll (pl, s) = (?pl1, ?s1)"
      using Cons.prems p by (simp add: ctrl_poll_def engine_consume_buffer split: option.splits prod.splits)
    from Cons.IH [of ?pl1 ?s1 r1] 2 step p Cons.prems show ?thesis
      by (simp add: update_engine_nth update_engine_twice comp_def split: option.splits prod.splits)
  qed
qed

lemma produced_buf_events: "produced (buf_events ep es) = map (\<lambda>x. (x, ep)) (frames_of es)"
  by (induction ep es rule: buf_events.induct) simp_all

lemma ctrl_start_None:
  assumes "ctrl_start drv req pl s = (None, pl', s')"
  obtains ss off m where "p_config pl = Some ss" and "p_offer pl = Some off" and "negotiate off req = Inr m"
    and "pstate pl = Configured \<or> pstate pl = Stopped \<or> pstate pl = PipelineFailed"
    and "engine_start drv (p_engine pl) ss s = (None, s')"
    and "pl' = pl\<lparr>pstate := PipelineRunning, p_channels := m\<rparr>"
  using assms
  by (auto simp: ctrl_start_def split: option.splits sum.splits prod.splits if_splits)

lemma ctrl_start_running:
  "ctrl_start drv req pl s = (res, pl', s') \<Longrightarrow> pstate pl \<noteq> PipelineRunning \<Longrightarrow>
   pstate pl' = PipelineRunning \<Longrightarrow> res = None"
  by (auto simp: ctrl_start_def split: option.splits sum.splits prod.splits if_splits)

text \<open>A session: from a successful start, over any steady-state events, the frames handed on
  and those still buffered are, in order, the frames produced less exactly the counted
  overruns; nothing else reaches the consumer.\<close>

lemma ctrl_session:
  assumes "acq_inv s" and "ctrl_start drv req pl s = (None, pl1, s1)"
    and "\<forall>e \<in> set es. data_event e" and "ctrl_run build drv (pl1, s1) es = (pl', s')"
  shows "\<exists>kept. subseq kept (frames_of es) \<and>
    delivered pl' @ map (normalize_frame (p_channels pl') (p_gain pl') \<circ> fst) (engine_frames (engines s' ! p_engine pl)) =
      delivered pl @ map (normalize_frame (p_channels pl') (p_gain pl')) kept \<and>
    (\<exists>r. eng_buffer (engines s' ! p_engine pl) = Some r \<and> overruns r = length (frames_of es) - length kept) \<and>
    pstate pl' = PipelineRunning \<and> p_gain pl' = p_gain pl \<and> p_channels pl' = p_channels pl1"
proof -
  obtain ss off m where cfg: "p_config pl = Some ss" and st: "engine_start drv (p_engine pl) ss s = (None, s1)"
    and pl1: "pl1 = pl\<lparr>pstate := PipelineRunning, p_channels := m\<rparr>"
    using ctrl_start_None [OF assms(2)] by metis
  let ?k = "p_engine pl"
  let ?ep = "eng_epoch (engines s1 ! ?k)"
  let ?r0 = "ring_new (buffer_capacity s) (silence s, ?ep)"
  have e1: "?k < length (engines s1)" "eng_state (engines s1 ! ?k) = Running" "eng_buffer (engines s1 ! ?k) = Some ?r0"
    using engine_start_None [OF st] by simp_all
  have r0: "ring_inv ?r0" using assms(1) by (simp add: acq_inv_def ring_new_inv)
  obtain out r' where rr: "ring_run ?r0 (buf_events ?ep es) = (out, r')" by fastforce
  have run: "(pl', s') = (pl1\<lparr>delivered := delivered pl1 @ map (normalize_frame (p_channels pl1) (p_gain pl1) \<circ> fst) out\<rparr>,
      update_engine ?k (\<lambda>e. e\<lparr>eng_buffer := Some r'\<rparr>) s1)"
    using ctrl_run_steady [of es pl1 s1 ?r0 build drv] assms(3,4) e1 pl1 rr by simp
  obtain kept0 where k0: "subseq kept0 (map (\<lambda>x. (x, ?ep)) (frames_of es))" and
      eq0: "out @ ring_contents r' = kept0" and ov: "overruns r' = length (frames_of es) - length kept0"
    using ring_run_conserves [OF r0 rr] by (auto simp: produced_buf_events)
  have sub: "subseq (map fst kept0) (frames_of es)"
    using subseq_map [OF k0, of fst] by (simp add: comp_def)
  have fr: "engine_frames (engines s' ! ?k) = ring_contents r'" and buf: "eng_buffer (engines s' ! ?k) = Some r'"
    using run e1 by (simp_all add: update_engine_nth engine_frames_def)
  have pl': "delivered pl' = delivered pl @ map (normalize_frame m (p_gain pl) \<circ> fst) out"
    "p_channels pl' = m" "p_gain pl' = p_gain pl" "pstate pl' = PipelineRunning" "p_channels pl1 = m"
    using run pl1 by simp_all
  have "delivered pl' @ map (normalize_frame m (p_gain pl) \<circ> fst) (ring_contents r') =
      delivered pl @ map (normalize_frame m (p_gain pl)) (map fst kept0)"
    unfolding pl'(1) eq0 [symmetric] by simp
  with sub fr buf ov pl' show ?thesis by (intro exI [of _ "map fst kept0"]) simp
qed

section \<open>Lemmas: every controller step is a sequence of engine steps\<close>

lemma ctrl_step_steps: "(acq_step drv)\<^sup>*\<^sup>* s (snd (ctrl_step build drv e (pl, s)))"
proof (cases e)
  case (Start req)
  obtain res pl' s' where c: "ctrl_start drv req pl s = (res, pl', s')" by (metis prod.collapse)
  have "(acq_step drv)\<^sup>*\<^sup>* s s'"
    using c by (auto simp: ctrl_start_def split: option.splits sum.splits prod.splits if_splits
        intro: engine_start_steps)
  with Start c show ?thesis by simp
next
  case (Interrupt x)
  then show ?thesis by (auto intro: acq_step.produce)
next
  case HwFault
  then show ?thesis by (auto intro: acq_step.fail)
next
  case Poll
  have "acq_step drv s (snd (engine_consume (p_engine pl) s))"
    by (rule acq_step.consume [of _ _ "fst (engine_consume (p_engine pl) s)"]) simp
  with Poll show ?thesis by (auto simp: ctrl_poll_def split: prod.splits option.splits)
next
  case (Stop b)
  with engine_stop_steps [of drv s "p_engine pl"] show ?thesis
    by (auto simp: ctrl_stop_def split: prod.splits)
qed simp

lemma ctrl_run_steps: "(acq_step drv)\<^sup>*\<^sup>* (snd st) (snd (ctrl_run build drv st es))"
proof (induction es arbitrary: st)
  case (Cons e es)
  have "(acq_step drv)\<^sup>*\<^sup>* (snd st) (snd (ctrl_step build drv e st))"
    using ctrl_step_steps [of drv "snd st" build e "fst st"] by simp
  with Cons.IH [of "ctrl_step build drv e st"] show ?case by (simp add: rtranclp_trans)
qed simp

lemma ctrl_step_engine: "p_engine (fst (ctrl_step build drv e st)) = p_engine (fst st)"
  by (cases st; cases e)
    (auto simp: ctrl_setup_def ctrl_start_def ctrl_poll_def ctrl_stop_def
      split: option.splits sum.splits prod.splits if_splits)

lemma ctrl_run_engine: "p_engine (fst (ctrl_run build drv st es)) = p_engine (fst st)"
  by (induction es arbitrary: st) (simp_all add: ctrl_step_engine)

lemma ctrl_step_data_pstate:
  "data_event e \<Longrightarrow> pstate (fst (ctrl_step build drv e st)) = pstate (fst st)"
  by (cases st; cases e) (auto simp: ctrl_poll_def split: option.splits prod.splits)

lemma ctrl_run_data_pstate:
  "\<forall>e \<in> set es. data_event e \<Longrightarrow> pstate (fst (ctrl_run build drv st es)) = pstate (fst st)"
  by (induction es arbitrary: st) (simp_all add: ctrl_step_data_pstate)

lemma ctrl_stop_not_running: "pstate (fst (ctrl_stop b pl s)) \<noteq> PipelineRunning"
  by (auto simp: ctrl_stop_def split: prod.splits)

lemma ctrl_setup_init:
  "ctrl_setup build raw (pipeline_init k) = (res, pl0) \<Longrightarrow>
   pstate pl0 \<noteq> PipelineRunning \<and> p_engine pl0 = k \<and> delivered pl0 = [] \<and>
   (\<forall>ss. p_config pl0 = Some ss \<longrightarrow>
      build raw = Inr ss \<and> p_gain pl0 = gain_of_stmts ss \<and> p_offer pl0 = Some (offer_of_registration (last ss)))"
  by (auto simp: ctrl_setup_def pipeline_init_def split: sum.splits)

lemma gain_of_adf_to_code: "gain_of_stmts (adf_to_code reg c) = nat (gain_log2 c)"
  by (simp add: adf_to_code_def)

lemma adf_build_Inr_schema:
  "adf_build reg raw = Inr ss \<Longrightarrow> \<exists>c. adf_CONFIG_SCHEMA raw = Inr c \<and> ss = adf_to_code reg c"
  by (auto simp: adf_build_def split: sum.splits)

text \<open>A run that ends with the pipeline running, whose last start comes after a state that
  was not running and is followed only by steady-state events, is a session from a
  successful start.\<close>

lemma ctrl_run_last_start:
  assumes "ctrl_run build drv st (Start req # es) = (pl, s)" and "pstate (fst st) \<noteq> PipelineRunning"
    and "\<forall>e \<in> set es. data_event e" and "pstate pl = PipelineRunning"
  obtains pl1 s1 where "ctrl_start drv req (fst st) (snd st) = (None, pl1, s1)"
    and "ctrl_run build drv (pl1, s1) es = (pl, s)"
proof -
  obtain res pl1 s1 where c: "ctrl_start drv req (fst st) (snd st) = (res, pl1, s1)" by (metis prod.collapse)
  then have run: "ctrl_run build drv (pl1, s1) es = (pl, s)" using assms(1) by (cases st) simp
  then have "pstate pl1 = PipelineRunning" using ctrl_run_data_pstate [OF assms(3), of build drv "(pl1, s1)"] assms(4) by simp
  with ctrl_start_running [OF c assms(2)] c run that show ?thesis by simp
qed

lemma pipe_inv_mono: "pipe_inv build R pl s \<Longrightarrow> R \<subseteq> R' \<Longrightarrow> pipe_inv build R' pl s"
  unfolding pipe_inv_def by blast

lemma pipe_inv_step:
  assumes "pipe_inv build R pl s" and "ctrl_step build drv e (pl, s) = (pl', s')"
  shows "pipe_inv build (R \<union> {r. e = Setup r}) pl' s'"
proof (cases e)
  case (Setup r)
  with assms show ?thesis
    by (auto simp: pipe_inv_def ctrl_setup_def split: sum.splits if_splits)
next
  case (Start req)
  obtain res where c: "ctrl_start drv req pl s = (res, pl', s')" using assms(2) Start by (metis ctrl_step.simps(2) prod.collapse)
  show ?thesis
  proof (cases res)
    case None
    with c obtain ss m where "p_config pl = Some ss" "engine_start drv (p_engine pl) ss s = (None, s')"
        "pl' = pl\<lparr>pstate := PipelineRunning, p_channels := m\<rparr>"
      using ctrl_start_None [of drv req pl s pl' s'] by metis
    with assms(1) show ?thesis using engine_start_None [of drv "p_engine pl" ss s s'] by (auto simp: pipe_inv_def)
  next
    case (Some es)
    with c assms(1) show ?thesis
      by (auto simp: pipe_inv_def ctrl_start_def split: option.splits sum.splits prod.splits if_splits)
  qed
next
  case (Interrupt x)
  with assms show ?thesis
    by (auto simp: pipe_inv_def engine_produce_def update_engine_nth_if split: option.splits)
next
  case HwFault
  with assms show ?thesis
    by (auto simp: pipe_inv_def engine_fail_def update_engine_nth_if)
next
  case Poll
  with assms show ?thesis
    by (auto simp: pipe_inv_def ctrl_poll_def engine_consume_def update_engine_nth_if
        split: option.splits prod.splits if_splits)
next
  case (Stop b)
  with assms show ?thesis
    by (cases "engine_stop (p_engine pl) s") (auto simp: pipe_inv_def ctrl_stop_def split: if_splits)
qed

lemma pipe_inv_run:
  "pipe_inv build R pl s \<Longrightarrow> ctrl_run build drv (pl, s) es = (pl', s') \<Longrightarrow>
   pipe_inv build (R \<union> {r. Setup r \<in> set es}) pl' s'"
proof (induction es arbitrary: R pl s)
  case (Cons e es)
  obtain pl1 s1 where st: "ctrl_step build drv e (pl, s) = (pl1, s1)" by fastforce
  from Cons.IH [OF pipe_inv_step [OF Cons.prems(1) st]] Cons.prems(2) st
  have "pipe_inv build (R \<union> {r. e = Setup r} \<union> {r. Setup r \<in> set es}) pl' s'" by simp
  then show ?case by (rule pipe_inv_mono) auto
qed simp

lemma i2s_setup_offer:
  assumes "ctrl_setup (i2s_build p reg) raw (pipeline_init k) = (None, pl)"
  obtains ss where "p_config pl = Some ss" and "pstate pl = Configured" and "p_engine pl = k"
    and "p_offer pl = Some (offer_of_registration (register_microphone_compat reg))"
proof -
  obtain ss where b: "i2s_build p reg raw = Inr ss" and pl: "pl = (pipeline_init k)\<lparr>pstate := Configured,
      p_config := Some ss, p_gain := gain_of_stmts ss, p_offer := Some (offer_of_registration (last ss))\<rparr>"
    using assms by (auto simp: ctrl_setup_def pipeline_init_def split: sum.splits)
  from i2s_build_InrD [OF b] obtain c where "i2s_to_code p reg c = Inr ss" by blast
  from i2s_to_code_Inr_register_last [OF this] pl that show ?thesis by (simp add: pipeline_init_def)
qed

lemma acq_reach_ctrl_run:
  assumes "0 < cap"
  shows "acq_reach drv n cap z (snd (ctrl_run build drv (pl, acq_init n cap z) es))"
proof -
  have "(acq_step drv)\<^sup>*\<^sup>* (acq_init n cap z) (snd (ctrl_run build drv (pl, acq_init n cap z) es))"
    using ctrl_run_steps [of drv "(pl, acq_init n cap z)" build es] by simp
  with acq_reach_init [OF assms] show ?thesis by (rule acq_reach_steps)
qed

section \<open>Lemmas: interleaved pipelines\<close>

lemma update_engine_other: "i \<noteq> j \<Longrightarrow> engines (update_engine i f s) ! j = engines s ! j"
  by (simp add: update_engine_def)

text \<open>A step of a pipeline whose engine is not the owner leaves the owner and the owner's
  engine alone.\<close>

lemma ctrl_step_other:
  assumes "owner s = Some j" and "p_engine pl \<noteq> j" and "ctrl_step build drv e (pl, s) = (pl', s')"
  shows "owner s' = Some j \<and> length (engines s') = length (engines s) \<and> engines s' ! j = engines s ! j"
proof (cases e)
  case (Start req)
  then have "s' = s" using assms
    by (auto simp: ctrl_start_def engine_start_def engine_claim_def split: option.splits sum.splits prod.splits if_splits)
  then show ?thesis using assms(1) by simp
next
  case Poll
  with assms show ?thesis
    by (auto simp: ctrl_poll_def engine_consume_def update_engine_other split: option.splits prod.splits if_splits)
next
  case (Stop b)
  with assms show ?thesis
    by (auto simp: ctrl_stop_def engine_stop_def engine_stop_begin_def engine_release_def update_engine_other
        split: prod.splits if_splits option.splits)
qed (use assms in \<open>auto simp: engine_produce_def engine_fail_def update_engine_other\<close>)

lemma pipe_inv_other:
  "pipe_inv build R pl s \<Longrightarrow>
   (pstate pl = PipelineRunning \<Longrightarrow> owner s' = owner s \<and> length (engines s') = length (engines s) \<and>
      engines s' ! p_engine pl = engines s ! p_engine pl) \<Longrightarrow>
   pipe_inv build R pl s'"
  by (auto simp: pipe_inv_def)

lemma multi_inv_mono: "multi_inv build R pls s \<Longrightarrow> (\<And>j. R j \<subseteq> R' j) \<Longrightarrow> multi_inv build R' pls s"
  unfolding multi_inv_def by (blast intro: pipe_inv_mono)

lemma multi_inv_step:
  assumes "multi_inv build R pls s" and "multi_step build drv (i, e) (pls, s) = (pls', s')"
  shows "multi_inv build (R(i := R i \<union> {r. e = Setup r})) pls' s'"
proof (cases "i < length pls")
  case True
  obtain pl' s1 where st: "ctrl_step build drv e (pls ! i, s) = (pl', s1)" by fastforce
  with assms(2) True have pls': "pls' = pls[i := pl']" and s': "s' = s1" by simp_all
  have "p_engine (pls' ! j) = j \<and> pipe_inv build ((R(i := R i \<union> {r. e = Setup r})) j) (pls' ! j) s'"
    if j: "j < length pls" for j
  proof (cases "j = i")
    case True
    with assms(1) j have "p_engine (pls ! i) = i" and "pipe_inv build (R i) (pls ! i) s" by (auto simp: multi_inv_def)
    with pipe_inv_step [OF _ st] ctrl_step_engine [of build drv e "(pls ! i, s)"] st True j pls' s'
    show ?thesis by simp
  next
    case False
    with assms(1) j True have e: "p_engine (pls ! j) = j" "p_engine (pls ! i) = i"
      and inv: "pipe_inv build (R j) (pls ! j) s" by (auto simp: multi_inv_def)
    have "pipe_inv build (R j) (pls ! j) s1"
    proof (rule pipe_inv_other [OF inv])
      assume "pstate (pls ! j) = PipelineRunning"
      with inv e have o: "owner s = Some j" by (simp add: pipe_inv_def)
      from ctrl_step_other [OF o _ st] o e False
      show "owner s1 = owner s \<and> length (engines s1) = length (engines s) \<and>
          engines s1 ! p_engine (pls ! j) = engines s ! p_engine (pls ! j)" by simp
    qed
    with False e pls' s' show ?thesis by simp
  qed
  then show ?thesis using pls' by (simp add: multi_inv_def)
next
  case False
  with assms show ?thesis by (auto intro: multi_inv_mono)
qed

lemma multi_run_inv:
  "multi_inv build R pls s \<Longrightarrow> multi_run build drv (pls, s) es = (pls', s') \<Longrightarrow>
   multi_inv build (\<lambda>j. R j \<union> {r. (j, Setup r) \<in> set es}) pls' s'"
proof (induction es arbitrary: R pls s)
  case (Cons ie es)
  obtain i e where ie: "ie = (i, e)" by fastforce
  obtain pls1 s1 where st: "multi_step build drv (i, e) (pls, s) = (pls1, s1)" by fastforce
  from Cons.IH [OF multi_inv_step [OF Cons.prems(1) st]] Cons.prems(2) st ie
  have "multi_inv build (\<lambda>j. (R(i := R i \<union> {r. e = Setup r})) j \<union> {r. (j, Setup r) \<in> set es}) pls' s'"
    by simp
  then show ?case by (rule multi_inv_mono) (auto simp: ie)
qed simp

text \<open>The first session of a pipeline: set up, started, then steady-state events.\<close>

lemma ctrl_run_first_session:
  assumes "ctrl_run build drv (pipeline_init k, acq_init n cap z) (Setup raw # Start req # es) = (pl, s)"
    and "\<forall>e \<in> set es. data_event e" and "pstate pl = PipelineRunning" and "0 < cap"
  shows "\<exists>ss m kept. build raw = Inr ss \<and> p_gain pl = gain_of_stmts ss \<and>
    negotiate (offer_of_registration (last ss)) req = Inr m \<and> p_channels pl = m \<and>
    subseq kept (frames_of es) \<and>
    delivered pl @ map (normalize_frame m (gain_of_stmts ss) \<circ> fst) (engine_frames (engines s ! k)) =
      map (normalize_frame m (gain_of_stmts ss)) kept \<and>
    (\<exists>r. eng_buffer (engines s ! k) = Some r \<and> overruns r = length (frames_of es) - length kept)"
proof -
  let ?s0 = "acq_init n cap z :: 'a mic_system"
  obtain res0 and pl0 :: "'a mic_pipeline" where
    su: "ctrl_setup build raw (pipeline_init k) = (res0, pl0)" by fastforce
  note pl0 = ctrl_setup_init [OF su]
  have "ctrl_run build drv (pl0, ?s0) (Start req # es) = (pl, s)" using assms(1) su by simp
  from ctrl_run_last_start [OF this _ assms(2,3)] pl0 obtain pl1 s1 where
    c: "ctrl_start drv req pl0 ?s0 = (None, pl1, s1)" and run: "ctrl_run build drv (pl1, s1) es = (pl, s)"
    by auto
  obtain ss off m where cfg: "p_config pl0 = Some ss" and off: "p_offer pl0 = Some off"
    and neg: "negotiate off req = Inr m" and pl1: "pl1 = pl0\<lparr>pstate := PipelineRunning, p_channels := m\<rparr>"
    using ctrl_start_None [OF c] by metis
  have inv: "acq_inv ?s0" using assms(4) by (rule acq_inv_init_state)
  from ctrl_session [OF inv c assms(2) run] pl0 cfg off neg pl1 show ?thesis by auto
qed

lemma i2s_build_gain: "i2s_build p reg raw = Inr ss \<Longrightarrow> gain_of_stmts ss = 0"
  using i2s_build_InrD i2s_to_code_Inr_cases
  by (fastforce simp: register_microphone_compat_def)

lemma i2s_build_Inl_nonempty: "i2s_build p reg raw = Inl es \<Longrightarrow> es \<noteq> []"
  using i2s_typed_schema_not_Inl_Nil [of p raw]
  by (auto simp: i2s_build_def i2s_CONFIG_SCHEMA_def all_v_def split: sum.splits)

lemma normalize_frame_mono_zero: "length x = 1 \<Longrightarrow> normalize_frame 1 0 x = (x :: 'a::len word list)"
  using normalize_frame_full [of x 0] sat_shl_fast_eq_sat_shl [of 0] by (auto intro!: map_idI)

lemma i2s_build_last: "i2s_build p reg raw = Inr ss \<Longrightarrow> last ss = register_microphone_compat reg"
  using i2s_build_InrD i2s_to_code_Inr_register_last by blast

text \<open>What a pipeline that a run from the initial state left running holds.\<close>

lemma ctrl_run_running:
  assumes "ctrl_run build drv (pipeline_init k, acq_init n cap z) es = (pl, s)"
    and "pstate pl = PipelineRunning" and "0 < cap"
  shows "p_engine pl = k \<and> k < length (engines s) \<and> owner s = Some k \<and> acq_inv s \<and>
    (eng_state (engines s ! k) = Running \<or> eng_state (engines s ! k) = Failed) \<and>
    (\<exists>r. eng_buffer (engines s ! k) = Some r \<and> ring_inv r)"
proof -
  have "pipe_inv build {} (pipeline_init k) (acq_init n cap z :: 'a mic_system)"
    by (simp add: pipe_inv_def pipeline_init_def)
  from pipe_inv_run [OF this assms(1)] assms(2)
  have o: "owner s = Some (p_engine pl)" and i: "p_engine pl < length (engines s)"
    and st: "eng_state (engines s ! p_engine pl) = Running \<or> eng_state (engines s ! p_engine pl) = Failed"
    by (auto simp: pipe_inv_def)
  have e: "p_engine pl = k"
    using ctrl_run_engine [of build drv "(pipeline_init k, acq_init n cap z)" es] assms(1)
    by (simp add: pipeline_init_def)
  have "(acq_step drv)\<^sup>*\<^sup>* (acq_init n cap z) s"
    using ctrl_run_steps [of drv "(pipeline_init k, acq_init n cap z)" build es] assms(1) by simp
  then have inv: "acq_inv s" using acq_inv_init_state [OF assms(3)] by (rule acq_steps_inv)
  have "\<exists>r. eng_buffer (engines s ! k) = Some r \<and> ring_inv r"
    using acq_inv_nth [OF inv i] st e by (auto simp: engine_ok_def split: option.splits)
  with o i st e inv show ?thesis by simp
qed

section \<open>Properties of the pipeline\<close>

text \<open>C20: however the events of several I2S pipelines (each with its own engine) interleave,
  at most one of them is running; a running pipeline owns the peripheral, and its engine is
  configured with the statements generated from an input set up through it and accepted by
  the code (spec section 5: one engine per peripheral).\<close>

theorem pipelines_mutual_exclusion:
  assumes "multi_run (i2s_build p reg) drv (map pipeline_init [0..<m], acq_init n cap z) es = (pls, s)"
  shows "length (filter (\<lambda>pl. pstate pl = PipelineRunning) pls) \<le> 1 \<and>
    (\<forall>j < length pls. pstate (pls ! j) = PipelineRunning \<longrightarrow>
       owner s = Some j \<and>
       (\<exists>r ss. (j, Setup r) \<in> set es \<and> i2s_build p reg r = Inr ss \<and> eng_config (engines s ! j) = Some ss))"
proof -
  have "multi_inv (i2s_build p reg) (\<lambda>j. {}) (map pipeline_init [0..<m]) (acq_init n cap z :: 'a mic_system)"
    by (simp add: multi_inv_def pipe_inv_def pipeline_init_def)
  from multi_run_inv [OF this assms]
  have inv: "multi_inv (i2s_build p reg) (\<lambda>j. {r. (j, Setup r) \<in> set es}) pls s" by simp
  have run: "owner s = Some j \<and>
      (\<exists>r ss. (j, Setup r) \<in> set es \<and> i2s_build p reg r = Inr ss \<and> eng_config (engines s ! j) = Some ss)"
    if "j < length pls" and "pstate (pls ! j) = PipelineRunning" for j
    using inv that by (fastforce simp: multi_inv_def pipe_inv_def)
  have "length (filter (\<lambda>pl. pstate pl = PipelineRunning) pls) \<le> 1"
    by (rule length_filter_le_one [where k = "the (owner s)"]) (use run in simp)
  with run show ?thesis by blast
qed

theorem pipelines_mutual_exclusion_witness:
  "pstate (fst demo_multi_run ! 0) = PipelineRunning \<and> pstate (fst demo_multi_run ! 1) = PipelineFailed \<and>
   length (filter (\<lambda>pl. pstate pl = PipelineRunning) (fst demo_multi_run)) \<le> 1 \<and>
   owner (snd demo_multi_run) = Some 0"
proof -
  have run: "multi_run (i2s_build (example_platform VARIANT_ESP32) [''audio_device'']) (\<lambda>ss. True)
      (map pipeline_init [0..<2], acq_init 2 2 []) demo_multi_events = (fst demo_multi_run, snd demo_multi_run)"
    by (simp only: demo_multi_run_def prod.collapse)
  have t: "pstate (fst demo_multi_run ! 0) = PipelineRunning" "pstate (fst demo_multi_run ! 1) = PipelineFailed"
      "length (fst demo_multi_run) = 2"
    by code_simp+
  show ?thesis using pipelines_mutual_exclusion [OF run] t by auto
qed

text \<open>C21: when the driver refuses the statements generated for an I2S pipeline, \<open>start\<close>
  fails with \<open>PeripheralInitError\<close>, the pipeline is \<open>Failed\<close> and the engine system is left
  exactly as it was, with the peripheral not claimed; a later \<open>start\<close> of the same pipeline
  with a driver that accepts them succeeds and owns the peripheral (spec sections 4.6 and 7:
  roll back, no automatic retry, the controller may retry).\<close>

theorem pipeline_start_rollback_and_retry:
  assumes "ctrl_setup (i2s_build p reg) raw (pipeline_init k) = (None, pl)" and "p_config pl = Some ss"
    and "\<not> drv ss" and "drv' ss" and "acq_inv s" and "owner s = None" and "k < length (engines s)"
  shows "ctrl_start drv None pl s = (Some [PeripheralInitError], pl\<lparr>pstate := PipelineFailed\<rparr>, s) \<and>
    (\<exists>pl2 s2. ctrl_start drv' None (pl\<lparr>pstate := PipelineFailed\<rparr>) s = (None, pl2, s2) \<and>
       pstate pl2 = PipelineRunning \<and> owner s2 = Some k)"
proof -
  obtain ss' where cfg: "p_config pl = Some ss'" and st: "pstate pl = Configured" and e: "p_engine pl = k"
    and off: "p_offer pl = Some (offer_of_registration (register_microphone_compat reg))"
    using i2s_setup_offer [OF assms(1)] by blast
  with assms(2) have ss: "ss' = ss" by simp
  have "fst (engine_start drv k ss s) = Some PeripheralInitError"
    using assms(3,6,7) by (simp add: engine_start_def engine_claim_def engine_init_def)
  then obtain s' where fail: "engine_start drv k ss s = (Some PeripheralInitError, s')" by (metis prod.collapse)
  from engine_start_failure_rolls_back [OF assms(5) fail]
  have "engine_start drv k ss s = (Some PeripheralInitError, s)" using fail by simp
  moreover have "fst (engine_start drv' k ss s) = None \<and> owner (snd (engine_start drv' k ss s)) = Some k"
    using assms(4,6,7) by (simp add: engine_start_def engine_claim_def engine_init_def update_engine_def)
  ultimately show ?thesis using cfg st e off ss
    by (auto simp: ctrl_start_def negotiate_compat split: prod.splits)
qed

theorem pipeline_start_rollback_and_retry_witness:
  "ctrl_start (\<lambda>ss. False) None (snd (ctrl_setup (i2s_build (example_platform VARIANT_ESP32) [''audio_device'']) mic_internal_34
       (pipeline_init 0 :: 8 mic_pipeline))) (acq_init 1 2 []) =
     (Some [PeripheralInitError],
      (snd (ctrl_setup (i2s_build (example_platform VARIANT_ESP32) [''audio_device'']) mic_internal_34
         (pipeline_init 0 :: 8 mic_pipeline)))\<lparr>pstate := PipelineFailed\<rparr>, acq_init 1 2 [])"
proof -
  let ?pl = "snd (ctrl_setup (i2s_build (example_platform VARIANT_ESP32) [''audio_device'']) mic_internal_34
       (pipeline_init 0 :: 8 mic_pipeline))"
  let ?ss = "[NewPvariable, RegisterComponent, SetAdcChannel 6, RegisterMicrophone (Some [(''max_channels'', 1)])]"
  have su: "ctrl_setup (i2s_build (example_platform VARIANT_ESP32) [''audio_device'']) mic_internal_34
       (pipeline_init 0 :: 8 mic_pipeline) = (None, ?pl)" by code_simp
  have cfg: "p_config ?pl = Some ?ss" by code_simp
  have inv: "acq_inv (acq_init 1 2 ([] :: 8 word list) :: 8 mic_system)" by (rule acq_inv_init_state) simp
  show ?thesis
    using pipeline_start_rollback_and_retry [OF su cfg, of "\<lambda>ss. False" "\<lambda>ss. True", OF _ _ inv]
    by (simp add: acq_init_def)
qed

text \<open>C22: stopping a running I2S pipeline hands on (when the consumer's stop contract
  forwards) exactly the frames still buffered, in order and normalised, or discards them;
  afterwards the pipeline is \<open>Stopped\<close>, its engine \<open>Idle\<close>, the peripheral released, and a
  producer interrupt no longer has any effect (spec sections 4.3, 4.6 and 5).\<close>

theorem pipeline_stop_drains_and_silences:
  assumes "ctrl_run (i2s_build p reg) drv (pipeline_init k, acq_init n cap z) es = (pl, s)"
    and "pstate pl = PipelineRunning" and "0 < cap" and "ctrl_stop b pl s = (pl', s')"
  shows "delivered pl' = delivered pl @
      (if b then map (normalize_frame (p_channels pl) (p_gain pl) \<circ> fst) (engine_frames (engines s ! k)) else []) \<and>
    pstate pl' = Stopped \<and> eng_state (engines s' ! k) = Idle \<and> owner s' = None \<and>
    (\<forall>x. engine_produce k x s' = s')"
proof -
  from ctrl_run_running [OF assms(1-3)]
  have e: "p_engine pl = k" and i: "k < length (engines s)" and o: "owner s = Some k" and inv: "acq_inv s"
    by simp_all
  have eq: "engine_stop k s = (engine_frames (engines s ! k),
     (update_engine k (\<lambda>e. e\<lparr>eng_state := Idle, eng_config := None, eng_buffer := None\<rparr>) s)\<lparr>owner := None\<rparr>)"
    using engine_stop_eq [OF inv i] o by simp
  have "eng_buffer (engines s' ! k) = None" and "eng_state (engines s' ! k) = Idle" and "owner s' = None"
    using assms(2,4) eq i e by (auto simp: ctrl_stop_def update_engine_nth)
  with assms(2,4) eq e show ?thesis by (auto simp: ctrl_stop_def engine_produce_idle)
qed

theorem pipeline_stop_drains_and_silences_witness:
  "delivered (fst (ctrl_stop True (fst (ctrl_run (i2s_build (example_platform VARIANT_ESP32) [''audio_device'']) (\<lambda>ss. True)
      (pipeline_init 0, acq_init 1 2 []) demo_i2s_pre)) (snd (ctrl_run (i2s_build (example_platform VARIANT_ESP32) [''audio_device''])
      (\<lambda>ss. True) (pipeline_init 0, acq_init 1 2 []) demo_i2s_pre)))) = [[1], [2]] \<and>
   owner (snd (ctrl_stop True (fst (ctrl_run (i2s_build (example_platform VARIANT_ESP32) [''audio_device'']) (\<lambda>ss. True)
      (pipeline_init 0, acq_init 1 2 []) demo_i2s_pre)) (snd (ctrl_run (i2s_build (example_platform VARIANT_ESP32) [''audio_device''])
      (\<lambda>ss. True) (pipeline_init 0, acq_init 1 2 []) demo_i2s_pre)))) = None"
proof -
  let ?st = "ctrl_run (i2s_build (example_platform VARIANT_ESP32) [''audio_device'']) (\<lambda>ss. True)
      (pipeline_init 0, acq_init 1 2 []) demo_i2s_pre :: 8 mic_pipeline \<times> 8 mic_system"
  have run: "ctrl_run (i2s_build (example_platform VARIANT_ESP32) [''audio_device'']) (\<lambda>ss. True)
      (pipeline_init 0, acq_init 1 2 []) demo_i2s_pre = (fst ?st, snd ?st)" by simp
  have t: "pstate (fst ?st) = PipelineRunning"
      "map (normalize_frame (p_channels (fst ?st)) (p_gain (fst ?st)) \<circ> fst) (engine_frames (engines (snd ?st) ! 0)) = [[1], [2]]"
      "delivered (fst ?st) = []"
    by code_simp+
  show ?thesis
    using pipeline_stop_drains_and_silences [OF run t(1), of True "fst (ctrl_stop True (fst ?st) (snd ?st))"
        "snd (ctrl_stop True (fst ?st) (snd ?st))"] t
    by simp
qed

text \<open>C23: for an ADF microphone set up from a configuration and started, whatever
  interleaving of producer interrupts and consumer polls follows, the frames handed to
  the downstream consumer, followed by those still buffered, are the produced frames in
  production order, less dropped ones (never reordered or duplicated), each normalised
  with the gain the configuration validated; the ring's overrun counter is exactly the
  number of frames dropped (spec sections 3, 5 and 8).\<close>

theorem pipeline_delivers_in_order:
  assumes "ctrl_run (adf_build reg) drv (pipeline_init k, acq_init n cap z) (Setup raw # Start req # es) = (pl, s)"
    and "\<forall>e \<in> set es. data_event e" and "pstate pl = PipelineRunning" and "0 < cap"
  shows "\<exists>c kept. adf_CONFIG_SCHEMA raw = Inr c \<and> p_gain pl = nat (gain_log2 c) \<and>
    subseq kept (frames_of es) \<and>
    delivered pl @ map (normalize_frame (p_channels pl) (p_gain pl) \<circ> fst) (engine_frames (engines s ! k)) =
      map (normalize_frame (p_channels pl) (p_gain pl)) kept \<and>
    (\<exists>r. eng_buffer (engines s ! k) = Some r \<and> overruns r = length (frames_of es) - length kept)"
proof -
  from ctrl_run_first_session [OF assms] obtain ss kept where
    b: "adf_build reg raw = Inr ss" and g: "p_gain pl = gain_of_stmts ss" and sub: "subseq kept (frames_of es)"
    and d: "delivered pl @ map (normalize_frame (p_channels pl) (gain_of_stmts ss) \<circ> fst) (engine_frames (engines s ! k)) =
      map (normalize_frame (p_channels pl) (gain_of_stmts ss)) kept"
    and o: "\<exists>r. eng_buffer (engines s ! k) = Some r \<and> overruns r = length (frames_of es) - length kept"
    by auto
  from adf_build_Inr_schema [OF b] obtain c where "adf_CONFIG_SCHEMA raw = Inr c" and "ss = adf_to_code reg c" by blast
  with g sub d o show ?thesis by (intro exI [of _ c] exI [of _ kept]) (simp add: gain_of_adf_to_code)
qed

theorem pipeline_delivers_in_order_witness:
  "pstate (fst demo_run) = PipelineRunning \<and> delivered (fst demo_run) = [[12], [127], [28]] \<and>
   (\<exists>c kept. adf_CONFIG_SCHEMA demo_adf = Inr c \<and> p_gain (fst demo_run) = nat (gain_log2 c) \<and>
      subseq kept (frames_of demo_events) \<and>
      delivered (fst demo_run) @
        map (normalize_frame (p_channels (fst demo_run)) (p_gain (fst demo_run)) \<circ> fst)
          (engine_frames (engines (snd demo_run) ! 0)) =
        map (normalize_frame (p_channels (fst demo_run)) (p_gain (fst demo_run))) kept \<and>
      (\<exists>r. eng_buffer (engines (snd demo_run) ! 0) = Some r \<and>
         overruns r = length (frames_of demo_events) - length kept))"
proof -
  have run: "ctrl_run (adf_build [''audio_device'']) (\<lambda>ss. True) (pipeline_init 0, acq_init 1 2 [])
      (Setup demo_adf # Start None # demo_events) = (fst demo_run, snd demo_run)"
    by (simp only: demo_run_def prod.collapse)
  have ev: "\<forall>e \<in> set demo_events. data_event e" by (simp add: demo_events_def)
  have t: "pstate (fst demo_run) = PipelineRunning \<and> delivered (fst demo_run) = [[12], [127], [28]]"
    by code_simp
  show ?thesis using pipeline_delivers_in_order [OF run ev] t by simp
qed

text \<open>C24: after a stop, a new start of the same pipeline delivers, in order, only frames
  produced after the restart: what the consumer receives after the stop returned (and what
  is still buffered) is a subsequence of the frames produced since, never a frame from
  before the stop (spec section 8).\<close>

theorem pipeline_restart_no_stale_frames:
  assumes "ctrl_run (i2s_build p reg) drv (pipeline_init k, acq_init n cap z) (pre @ Stop b # Start req # es) = (pl, s)"
    and "\<forall>e \<in> set es. data_event e" and "pstate pl = PipelineRunning" and "0 < cap"
  shows "\<exists>kept. subseq kept (frames_of es) \<and>
    delivered pl @ map (normalize_frame (p_channels pl) (p_gain pl) \<circ> fst) (engine_frames (engines s ! k)) =
      delivered (fst (ctrl_run (i2s_build p reg) drv (pipeline_init k, acq_init n cap z) (pre @ [Stop b]))) @
      map (normalize_frame (p_channels pl) (p_gain pl)) kept"
proof -
  let ?st0 = "(pipeline_init k, acq_init n cap z) :: 'a mic_pipeline \<times> 'a mic_system"
  let ?st1 = "ctrl_run (i2s_build p reg) drv ?st0 (pre @ [Stop b])"
  have run: "ctrl_run (i2s_build p reg) drv ?st1 (Start req # es) = (pl, s)"
    using assms(1) ctrl_run_append [of "i2s_build p reg" drv ?st0 "pre @ [Stop b]" "Start req # es"] by simp
  have "pstate (fst ?st1) \<noteq> PipelineRunning"
    by (cases "ctrl_run (i2s_build p reg) drv ?st0 pre") (simp add: ctrl_run_append ctrl_stop_not_running)
  from ctrl_run_last_start [OF run this assms(2,3)] obtain pl1 s1 where
    c: "ctrl_start drv req (fst ?st1) (snd ?st1) = (None, pl1, s1)" and run1: "ctrl_run (i2s_build p reg) drv (pl1, s1) es = (pl, s)"
    by blast
  have "(acq_step drv)\<^sup>*\<^sup>* (acq_init n cap z) (snd ?st1)"
    using ctrl_run_steps [of drv ?st0 "i2s_build p reg" "pre @ [Stop b]"] by simp
  then have inv: "acq_inv (snd ?st1)" using acq_inv_init_state [OF assms(4)] by (rule acq_steps_inv)
  have eng: "p_engine (fst ?st1) = k"
    using ctrl_run_engine [of "i2s_build p reg" drv ?st0 "pre @ [Stop b]"] by (simp add: pipeline_init_def)
  show ?thesis using ctrl_session [OF inv c assms(2) run1] unfolding eng by blast
qed

theorem pipeline_restart_no_stale_frames_witness:
  "pstate (fst demo_i2s_run) = PipelineRunning \<and>
   delivered (fst (ctrl_run (i2s_build (example_platform VARIANT_ESP32) [''audio_device'']) (\<lambda>ss. True)
     (pipeline_init 0, acq_init 1 2 []) (demo_i2s_pre @ [Stop True]))) = [[1], [2]] \<and>
   delivered (fst demo_i2s_run) = [[1], [2], [9]] \<and>
   (\<exists>kept. subseq kept (frames_of demo_i2s_post) \<and>
      delivered (fst demo_i2s_run) @
        map (normalize_frame (p_channels (fst demo_i2s_run)) (p_gain (fst demo_i2s_run)) \<circ> fst)
          (engine_frames (engines (snd demo_i2s_run) ! 0)) =
      [[1], [2]] @ map (normalize_frame (p_channels (fst demo_i2s_run)) (p_gain (fst demo_i2s_run))) kept)"
proof -
  have run: "ctrl_run (i2s_build (example_platform VARIANT_ESP32) [''audio_device'']) (\<lambda>ss. True)
      (pipeline_init 0, acq_init 1 2 []) (demo_i2s_pre @ Stop True # Start None # demo_i2s_post) =
      (fst demo_i2s_run, snd demo_i2s_run)"
    by (simp only: demo_i2s_run_def prod.collapse)
  have ev: "\<forall>e \<in> set demo_i2s_post. data_event e" by (simp add: demo_i2s_post_def)
  have t: "pstate (fst demo_i2s_run) = PipelineRunning"
      "delivered (fst (ctrl_run (i2s_build (example_platform VARIANT_ESP32) [''audio_device'']) (\<lambda>ss. True)
        (pipeline_init 0, acq_init 1 2 []) (demo_i2s_pre @ [Stop True]))) = [[1], [2]]"
      "delivered (fst demo_i2s_run) = [[1], [2], [9]]"
    by code_simp+
  show ?thesis using pipeline_restart_no_stale_frames [OF run ev] t by simp
qed

text \<open>C25: while the peripheral is owned, the start of another configured pipeline fails
  cleanly: with \<open>PeripheralBusy\<close> (or \<open>CapabilityMismatch\<close> if its negotiation already
  fails), the shared engine state is left exactly as it was and the pipeline does not run
  (spec section 5).\<close>

theorem pipeline_second_start_busy:
  assumes "acq_reach drv n cap z s" and "owner s \<noteq> None" and "k < n"
    and "ctrl_setup (i2s_build p reg) raw (pipeline_init k) = (None, pl)"
  shows "\<exists>err pl'. ctrl_start drv req pl s = (Some [err], pl', s) \<and>
    (err = PeripheralBusy \<or> err = CapabilityMismatch) \<and> pstate pl' \<noteq> PipelineRunning"
proof -
  obtain ss where cfg: "p_config pl = Some ss" and st: "pstate pl = Configured" and e: "p_engine pl = k"
    and off: "p_offer pl = Some (offer_of_registration (register_microphone_compat reg))"
    using i2s_setup_offer [OF assms(4)] by blast
  have "length (engines s) = n"
    using assms(1) acq_steps_length [of drv "acq_init n cap z" s] by (simp add: acq_reach_def acq_init_def)
  then have "engine_start drv k ss s = (Some PeripheralBusy, s)"
    using assms(2,3) by (simp add: engine_start_def engine_claim_def)
  then show ?thesis using cfg st e off
    by (auto simp: ctrl_start_def negotiate_compat split: sum.splits option.splits if_splits)
qed

theorem pipeline_second_start_busy_witness:
  "owner (snd demo_two_run) = Some 0 \<and>
   (\<exists>err pl'. ctrl_start (\<lambda>ss. True) None
        (snd (ctrl_setup (i2s_build (example_platform VARIANT_ESP32) [''audio_device'']) mic_internal_34 (pipeline_init 1 :: 8 mic_pipeline)))
        (snd demo_two_run) = (Some [err], pl', snd demo_two_run) \<and>
      (err = PeripheralBusy \<or> err = CapabilityMismatch) \<and> pstate pl' \<noteq> PipelineRunning)"
proof -
  have r: "acq_reach (\<lambda>ss. True) 2 2 [] (snd demo_two_run)"
    unfolding demo_two_run_def by (rule acq_reach_ctrl_run) simp
  have o: "owner (snd demo_two_run) = Some 0" by code_simp
  have su: "ctrl_setup (i2s_build (example_platform VARIANT_ESP32) [''audio_device'']) mic_internal_34 (pipeline_init 1 :: 8 mic_pipeline) =
      (None, snd (ctrl_setup (i2s_build (example_platform VARIANT_ESP32) [''audio_device'']) mic_internal_34 (pipeline_init 1 :: 8 mic_pipeline)))"
    by code_simp
  show ?thesis using pipeline_second_start_busy [OF r _ _ su, of None] o by simp
qed

text \<open>C26: negotiation at start against the offer of the code's registration (either
  registration path): a request for more than one channel fails with \<open>CapabilityMismatch\<close>
  before any peripheral access and changes nothing; a start that succeeds runs with the
  requested channel count, or the offered single channel when the consumer requests
  nothing (spec sections 4.5 and 8).\<close>

theorem pipeline_start_negotiation:
  assumes "ctrl_setup (i2s_build p reg) raw (pipeline_init k) = (None, pl)"
  shows "(1 < m \<longrightarrow> ctrl_start drv (Some m) pl s = (Some [CapabilityMismatch], pl, s)) \<and>
    (ctrl_start drv req pl s = (None, pl', s') \<longrightarrow>
       p_channels pl' = (case req of None \<Rightarrow> 1 | Some m \<Rightarrow> m) \<and> p_channels pl' \<le> 1)"
proof -
  obtain ss where cfg: "p_config pl = Some ss" and st: "pstate pl = Configured"
    and off: "p_offer pl = Some (offer_of_registration (register_microphone_compat reg))"
    using i2s_setup_offer [OF assms] by blast
  show ?thesis using cfg st off
    by (auto simp: ctrl_start_def negotiate_compat split: option.splits sum.splits prod.splits if_splits)
qed

theorem pipeline_start_negotiation_witness:
  "ctrl_start (\<lambda>ss. True) (Some 2)
      (snd (ctrl_setup (i2s_build (example_platform VARIANT_ESP32) [''audio_device'']) mic_internal_34 (pipeline_init 0 :: 8 mic_pipeline)))
      (acq_init 1 2 ([] :: 8 word list)) =
    (Some [CapabilityMismatch],
     snd (ctrl_setup (i2s_build (example_platform VARIANT_ESP32) [''audio_device'']) mic_internal_34 (pipeline_init 0 :: 8 mic_pipeline)),
     acq_init 1 2 [])"
proof -
  have su: "ctrl_setup (i2s_build (example_platform VARIANT_ESP32) [''audio_device'']) mic_internal_34 (pipeline_init 0 :: 8 mic_pipeline) =
      (None, snd (ctrl_setup (i2s_build (example_platform VARIANT_ESP32) [''audio_device'']) mic_internal_34 (pipeline_init 0 :: 8 mic_pipeline)))"
    by code_simp
  show ?thesis using pipeline_start_negotiation [OF su, of 2 "\<lambda>ss. True" "acq_init 1 2 []"] by simp
qed

end
