(* ===== verification/Pipeline_Paths.thy ===== *)
theory Pipeline_Paths
  imports Controller
begin

text \<open>
  Paths of the pipeline controller beyond the steady state: the common single-channel I2S
  case, a peripheral fault while running (the engine goes
  \<open>Running \<rightarrow> Failed\<close>), and a configuration the code rejects at setup; the consumer's read
  loop \<open>ctrl_drain\<close> with its termination and what it delivers; and the invariant
  \<open>format_ok\<close> that keeps the output within the advertised channel count.
\<close>

text \<open>Fixtures: an I2S microphone on pin 34 of an ESP32 with 8-bit samples, started for the
  default channel count; an ADF microphone fed a burst that overruns a two-frame
  ring; events after a fault.\<close>

definition demo_mono_events :: "(raw_mic_config, 8 word list) ctrl_event list" where
  "demo_mono_events = [Interrupt [1], Interrupt [200], Poll]"

definition demo_mono_run :: "8 mic_pipeline \<times> 8 mic_system" where
  "demo_mono_run = ctrl_run (i2s_build (example_platform VARIANT_ESP32) [''audio_device'']) (\<lambda>ss. True)
     (pipeline_init 0, acq_init 1 2 []) (Setup mic_internal_34 # Start None # demo_mono_events)"

definition demo_after_fault :: "(raw_mic_config, 8 word list) ctrl_event list" where
  "demo_after_fault = [Interrupt [5], Poll]"

text \<open>The consumer's read loop: poll until a poll hands on no frame. It stops when the
  buffer is empty, when the pipeline is not running, or when the engine index is out of
  range; it runs forever (the value \<open>None\<close>) only on a ring whose cursors are inconsistent,
  which no run reaches.\<close>

partial_function (option) ctrl_drain ::
  "'a::len mic_pipeline \<Rightarrow> 'a mic_system \<Rightarrow> ('a mic_pipeline \<times> 'a mic_system) option" where
  [code]: "ctrl_drain pl s =
     (case ctrl_poll pl s of
        (pl', s') \<Rightarrow> if delivered pl' = delivered pl then Some (pl', s') else ctrl_drain pl' s')"

definition demo_burst_events :: "(raw_adf_config, 8 word list) ctrl_event list" where
  "demo_burst_events = [Interrupt [3], Interrupt [100], Interrupt [5]]"

definition demo_burst_run :: "8 mic_pipeline \<times> 8 mic_system" where
  "demo_burst_run = ctrl_run (adf_build [''audio_device'']) (\<lambda>ss. True) (pipeline_init 0, acq_init 1 2 [])
     (Setup demo_adf # Start None # demo_burst_events)"

text \<open>The output format a pipeline keeps: the offer it registered allows at most one
  channel, the negotiated channel count is within it, and every frame handed on has at most
  that many samples.\<close>

definition format_ok :: "'a::len mic_pipeline \<Rightarrow> bool" where
  "format_ok pl \<longleftrightarrow>
     (case p_offer pl of None \<Rightarrow> True | Some off \<Rightarrow> offer_max_channels off \<le> 1) \<and>
     p_channels pl \<le> 1 \<and> list_all (\<lambda>f. length f \<le> 1) (delivered pl)"

section \<open>Lemmas\<close>

text \<open>After a peripheral fault the producer adds nothing; the consumer keeps draining what
  was buffered.\<close>

lemma ctrl_run_failed_engine:
  assumes "\<forall>e \<in> set es. data_event e" and "pstate pl = PipelineRunning"
    and "p_engine pl < length (engines s)" and "eng_state (engines s ! p_engine pl) = Failed"
    and "eng_buffer (engines s ! p_engine pl) = Some r" and "ring_inv r"
    and "ctrl_run build drv (pl, s) es = (pl', s')"
  shows "pstate pl' = PipelineRunning \<and> eng_state (engines s' ! p_engine pl) = Failed \<and>
    (\<exists>r'. eng_buffer (engines s' ! p_engine pl) = Some r' \<and>
       delivered pl' @ map (normalize_frame (p_channels pl) (p_gain pl) \<circ> fst) (ring_contents r') =
       delivered pl @ map (normalize_frame (p_channels pl) (p_gain pl) \<circ> fst) (ring_contents r))"
  using assms
proof (induction es arbitrary: pl s r)
  case Nil
  then have "pl' = pl" and "s' = s" by simp_all
  with Nil.prems(2,4,5) show ?case by (intro conjI exI [of _ r]) simp_all
next
  case (Cons e es)
  let ?k = "p_engine pl"
  from Cons.prems(1) consider x where "e = Interrupt x" | "e = Poll" by (cases e) auto
  then show ?case
  proof cases
    case (1 x)
    then have "engine_produce ?k x s = s"
      using Cons.prems(4) by (simp add: engine_produce_def update_engine_id split: option.splits)
    with Cons.prems(7) 1 have run1: "ctrl_run build drv (pl, s) es = (pl', s')" by simp
    have d1: "\<forall>e \<in> set es. data_event e" using Cons.prems(1) by simp
    from Cons.IH [OF d1 Cons.prems(2-6) run1] show ?thesis .
  next
    case 2
    obtain v r1 where p: "ring_pop r = (v, r1)" by fastforce
    let ?s1 = "update_engine ?k (\<lambda>e. e\<lparr>eng_buffer := Some r1\<rparr>) s"
    have ec: "engine_consume ?k s = (v, ?s1)"
      using engine_consume_buffer [OF Cons.prems(3,5)] p by simp
    obtain pl1 where step: "ctrl_step build drv Poll (pl, s) = (pl1, ?s1)"
      and d: "delivered pl1 = delivered pl @ map (normalize_frame (p_channels pl) (p_gain pl) \<circ> fst)
                 (case v of None \<Rightarrow> [] | Some x \<Rightarrow> [x])"
      and f: "pstate pl1 = pstate pl" "p_engine pl1 = p_engine pl" "p_channels pl1 = p_channels pl" "p_gain pl1 = p_gain pl"
    proof (cases v)
      case None
      with ec Cons.prems(2) show ?thesis by (intro that [of pl]) (simp_all add: ctrl_poll_def)
    next
      case (Some y)
      with ec Cons.prems(2) show ?thesis
        by (intro that [of "pl\<lparr>delivered := delivered pl @ [normalize_frame (p_channels pl) (p_gain pl) (fst y)]\<rparr>"])
          (simp_all add: ctrl_poll_def split: prod.splits)
    qed
    have c: "ring_contents r = (case v of None \<Rightarrow> [] | Some x \<Rightarrow> [x]) @ ring_contents r1" and i1: "ring_inv r1"
      using ring_pop_contents [OF Cons.prems(6) p] ring_pop_inv [OF Cons.prems(6)] p by simp_all
    have run1: "ctrl_run build drv (pl1, ?s1) es = (pl', s')" using Cons.prems(7) 2 step by simp
    have e1: "p_engine pl1 < length (engines ?s1)" "eng_state (engines ?s1 ! p_engine pl1) = Failed"
        "eng_buffer (engines ?s1 ! p_engine pl1) = Some r1"
      using Cons.prems(3,4) f by (simp_all add: update_engine_nth)
    have d1: "\<forall>e \<in> set es. data_event e" using Cons.prems(1) by simp
    have "pstate pl' = PipelineRunning \<and> eng_state (engines s' ! ?k) = Failed \<and>
      (\<exists>r'. eng_buffer (engines s' ! ?k) = Some r' \<and>
         delivered pl' @ map (normalize_frame (p_channels pl) (p_gain pl) \<circ> fst) (ring_contents r') =
         delivered pl1 @ map (normalize_frame (p_channels pl) (p_gain pl) \<circ> fst) (ring_contents r1))"
      using Cons.IH [OF d1 _ e1 i1 run1] f Cons.prems(2) by (simp add: comp_def)
    then obtain r' where "pstate pl' = PipelineRunning" "eng_state (engines s' ! ?k) = Failed"
      "eng_buffer (engines s' ! ?k) = Some r'"
      "delivered pl' @ map (normalize_frame (p_channels pl) (p_gain pl) \<circ> fst) (ring_contents r') =
         delivered pl1 @ map (normalize_frame (p_channels pl) (p_gain pl) \<circ> fst) (ring_contents r1)"
      by blast
    then show ?thesis by (intro conjI exI [of _ r']) (simp_all add: c d comp_def)
  qed
qed

text \<open>A pipeline that was never configured does nothing, whatever events it receives, as
  long as every setup among them is rejected by the build function.\<close>

lemma ctrl_step_unconfigured:
  "(\<forall>r. e = Setup r \<longrightarrow> isl (build r)) \<Longrightarrow> k < length (engines s) \<Longrightarrow> engines s ! k = engine_idle \<Longrightarrow>
   ctrl_step build drv e (pipeline_init k, s) = (pipeline_init k, s)"
  by (cases e) (auto simp: pipeline_init_def ctrl_setup_def ctrl_start_def ctrl_poll_def ctrl_stop_def
      engine_produce_def engine_fail_def engine_idle_def update_engine_id split: sum.splits)

lemma ctrl_run_unconfigured:
  "\<forall>e \<in> set es. \<forall>r. e = Setup r \<longrightarrow> isl (build r) \<Longrightarrow> k < length (engines s) \<Longrightarrow>
   engines s ! k = engine_idle \<Longrightarrow> ctrl_run build drv (pipeline_init k, s) es = (pipeline_init k, s)"
proof (induction es)
  case (Cons e es)
  then have "ctrl_step build drv e (pipeline_init k, s) = (pipeline_init k, s)"
    by (intro ctrl_step_unconfigured) simp_all
  with Cons show ?case by simp
qed simp

text \<open>Draining a running pipeline whose engine holds a consistent ring terminates, hands
  on every buffered frame in order, and leaves the ring empty with its overrun count; nothing
  else of the engine system changes.\<close>

lemma ring_pop_empty: "ring_inv r \<Longrightarrow> ring_contents r = [] \<Longrightarrow> ring_pop r = (None, r)"
  by (auto simp: ring_pop_def ring_inv_def ring_contents_def)

lemma ring_pop_nonempty:
  assumes "ring_inv r" and "ring_contents r \<noteq> []"
  obtains x r1 where "ring_pop r = (Some x, r1)" and "ring_contents r = x # ring_contents r1"
    and "ring_inv r1" and "overruns r1 = overruns r"
proof -
  from assms(2) have "rd r \<noteq> wr r" by (auto simp: ring_contents_def)
  then obtain x r1 where p: "ring_pop r = (Some x, r1)" and o: "overruns r1 = overruns r"
    by (simp add: ring_pop_def)
  from ring_pop_contents [OF assms(1) p] ring_pop_inv [OF assms(1)] p o show ?thesis
    by (intro that [of x r1]) simp_all
qed

lemma ctrl_drain_ring:
  assumes "pstate pl = PipelineRunning" and "p_engine pl < length (engines s)"
    and "eng_buffer (engines s ! p_engine pl) = Some r" and "ring_inv r"
  shows "\<exists>r'. ctrl_drain pl s =
      Some (pl\<lparr>delivered := delivered pl @ map (normalize_frame (p_channels pl) (p_gain pl) \<circ> fst) (ring_contents r)\<rparr>,
            update_engine (p_engine pl) (\<lambda>e. e\<lparr>eng_buffer := Some r'\<rparr>) s) \<and>
    ring_contents r' = [] \<and> ring_inv r' \<and> overruns r' = overruns r"
  using assms
proof (induction "length (ring_contents r)" arbitrary: pl s r)
  case 0
  let ?k = "p_engine pl"
  have p: "ring_pop r = (None, r)" using 0 by (simp add: ring_pop_empty)
  have id: "update_engine ?k (\<lambda>e. e\<lparr>eng_buffer := Some r\<rparr>) s = s"
    using "0.prems"(3) by (intro update_engine_id) simp
  have "ctrl_poll pl s = (pl, s)"
    using engine_consume_buffer [OF "0.prems"(2,3)] p id "0.prems"(1) by (simp add: ctrl_poll_def)
  then have "ctrl_drain pl s = Some (pl, s)" by (subst ctrl_drain.simps) simp
  with id "0" show ?case by (intro exI [of _ r]) simp
next
  case (Suc n)
  let ?k = "p_engine pl"
  let ?nf = "normalize_frame (p_channels pl) (p_gain pl)"
  from Suc.hyps(2) have "ring_contents r \<noteq> []" by auto
  from ring_pop_nonempty [OF Suc.prems(4) this] obtain x r1 where p: "ring_pop r = (Some x, r1)"
    and c: "ring_contents r = x # ring_contents r1" and i1: "ring_inv r1" and o1: "overruns r1 = overruns r" .
  let ?s1 = "update_engine ?k (\<lambda>e. e\<lparr>eng_buffer := Some r1\<rparr>) s"
  let ?pl1 = "pl\<lparr>delivered := delivered pl @ [?nf (fst x)]\<rparr>"
  have "ctrl_poll pl s = (?pl1, ?s1)"
    using engine_consume_buffer [OF Suc.prems(2,3)] p Suc.prems(1) by (simp add: ctrl_poll_def split: prod.splits)
  then have dr: "ctrl_drain pl s = ctrl_drain ?pl1 ?s1" by (subst ctrl_drain.simps) simp
  have n: "n = length (ring_contents r1)" using Suc.hyps(2) c by simp
  have e1: "pstate ?pl1 = PipelineRunning" "p_engine ?pl1 < length (engines ?s1)"
    "eng_buffer (engines ?s1 ! p_engine ?pl1) = Some r1"
    using Suc.prems(1,2) by (simp_all add: update_engine_nth)
  from Suc.hyps(1) [OF n e1 i1] obtain r' where
    d1: "ctrl_drain ?pl1 ?s1 = Some (?pl1\<lparr>delivered := delivered ?pl1 @ map (?nf \<circ> fst) (ring_contents r1)\<rparr>,
          update_engine ?k (\<lambda>e. e\<lparr>eng_buffer := Some r'\<rparr>) ?s1)"
    and r': "ring_contents r' = []" "ring_inv r'" "overruns r' = overruns r1"
    by auto
  have "update_engine ?k (\<lambda>e. e\<lparr>eng_buffer := Some r'\<rparr>) ?s1 = update_engine ?k (\<lambda>e. e\<lparr>eng_buffer := Some r'\<rparr>) s"
    by (simp add: update_engine_twice comp_def)
  with dr d1 r' o1 c show ?case by (intro exI [of _ r']) simp
qed

text \<open>The offer of a registration and the channel count a start negotiates.\<close>

lemma offer_compat_max: "offer_max_channels (offer_of_registration (register_microphone_compat ps)) = 1"
  by (simp add: offer_of_registration_def offered_max_channels_compat mic_offer_def)

lemma negotiate_le: "negotiate off req = Inr m \<Longrightarrow> m \<le> offer_max_channels off"
  by (auto simp: negotiate_def split: option.splits if_splits)

lemma ctrl_start_cases:
  "fst (snd (ctrl_start drv req pl s)) = pl \<or> fst (snd (ctrl_start drv req pl s)) = pl\<lparr>pstate := PipelineFailed\<rparr> \<or>
   (\<exists>off m. p_offer pl = Some off \<and> negotiate off req = Inr m \<and>
      fst (snd (ctrl_start drv req pl s)) = pl\<lparr>pstate := PipelineRunning, p_channels := m\<rparr>)"
  by (auto simp: ctrl_start_def split: option.splits sum.splits prod.splits)

lemma format_ok_step:
  assumes b: "\<forall>r ss. build r = Inr ss \<longrightarrow> offer_max_channels (offer_of_registration (last ss)) \<le> 1"
    and "format_ok pl"
  shows "format_ok (fst (ctrl_step build drv e (pl, s)))"
proof (cases e)
  case (Setup r)
  with assms show ?thesis by (auto simp: ctrl_setup_def format_ok_def split: sum.splits)
next
  case (Start req)
  from ctrl_start_cases [of drv req pl s] assms(2) show ?thesis
  proof (elim disjE exE conjE)
    fix off m
    assume "p_offer pl = Some off" and "negotiate off req = Inr m"
      and "fst (snd (ctrl_start drv req pl s)) = pl\<lparr>pstate := PipelineRunning, p_channels := m\<rparr>"
    with assms(2) Start negotiate_le [of off req m] show ?thesis
      by (simp add: format_ok_def split: prod.splits)
  qed (simp_all add: Start format_ok_def split: prod.splits)
next
  case Poll
  with assms(2) show ?thesis
    by (auto simp: ctrl_poll_def format_ok_def split: prod.splits option.splits)
next
  case (Stop b)
  with assms(2) show ?thesis
    by (auto simp: ctrl_stop_def format_ok_def list_all_iff split: prod.splits)
qed (simp_all add: assms(2))

lemma format_ok_run:
  assumes "\<forall>r ss. build r = Inr ss \<longrightarrow> offer_max_channels (offer_of_registration (last ss)) \<le> 1"
  shows "format_ok (fst st) \<Longrightarrow> format_ok (fst (ctrl_run build drv st es))"
proof (induction es arbitrary: st)
  case (Cons e es)
  obtain pl s where st: "st = (pl, s)" by fastforce
  from format_ok_step [OF assms] Cons.prems st have "format_ok (fst (ctrl_step build drv e st))" by simp
  with Cons.IH show ?case by simp
qed simp

section \<open>Properties of the pipeline's paths\<close>

text \<open>C27: the common case of the spec: an I2S microphone (which registers a single-channel
  offer and sets no gain) started with the default request or a request for one channel, fed
  single-sample frames, delivers the produced frames themselves, unchanged and in production
  order, less those dropped on overrun (spec sections 4.4 and 4.5: pass through unchanged).\<close>

theorem pipeline_i2s_mono_passthrough:
  assumes "ctrl_run (i2s_build p reg) drv (pipeline_init k, acq_init n cap z) (Setup raw # Start req # es) = (pl, s)"
    and "\<forall>e \<in> set es. data_event e" and "pstate pl = PipelineRunning" and "0 < cap"
    and "req \<noteq> Some 0" and "\<forall>x \<in> set (frames_of es). length x = 1"
  shows "p_channels pl = 1 \<and> p_gain pl = 0 \<and> subseq (delivered pl) (frames_of es)"
proof -
  from ctrl_run_first_session [OF assms(1-4)] obtain ss m kept where
    b: "i2s_build p reg raw = Inr ss" and g: "p_gain pl = gain_of_stmts ss"
    and neg: "negotiate (offer_of_registration (last ss)) req = Inr m" and ch: "p_channels pl = m"
    and sub: "subseq kept (frames_of es)"
    and d: "delivered pl @ map (normalize_frame m (gain_of_stmts ss) \<circ> fst) (engine_frames (engines s ! k)) =
      map (normalize_frame m (gain_of_stmts ss)) kept"
    by blast
  have g0: "gain_of_stmts ss = 0" using i2s_build_gain [OF b] .
  have m1: "m = 1"
    using neg assms(5) by (cases req) (auto simp: i2s_build_last [OF b] negotiate_compat split: if_splits)
  have "normalize_frame 1 0 x = x" if "x \<in> set kept" for x
  proof -
    from subseq_set_mem [OF sub that] assms(6) have "length x = 1" by blast
    then show ?thesis by (rule normalize_frame_mono_zero)
  qed
  then have "map (normalize_frame 1 0) kept = kept" by (rule map_idI)
  with d g0 m1 have "prefix (delivered pl) kept" by (metis prefixI)
  then have "subseq (delivered pl) kept" by (rule prefix_imp_subseq)
  then have "subseq (delivered pl) (frames_of es)" using sub by (rule subseq_order.trans)
  with g g0 ch m1 show ?thesis by simp
qed

theorem pipeline_i2s_mono_passthrough_witness:
  "delivered (fst demo_mono_run) = [[1]] \<and> p_channels (fst demo_mono_run) = 1 \<and>
   p_gain (fst demo_mono_run) = 0 \<and> subseq (delivered (fst demo_mono_run)) (frames_of demo_mono_events)"
proof -
  have run: "ctrl_run (i2s_build (example_platform VARIANT_ESP32) [''audio_device'']) (\<lambda>ss. True)
      (pipeline_init 0, acq_init 1 2 []) (Setup mic_internal_34 # Start None # demo_mono_events) =
      (fst demo_mono_run, snd demo_mono_run)"
    by (simp only: demo_mono_run_def prod.collapse)
  have ev: "\<forall>e \<in> set demo_mono_events. data_event e" "\<forall>x \<in> set (frames_of demo_mono_events). length x = 1"
    by (simp_all add: demo_mono_events_def)
  have t: "pstate (fst demo_mono_run) = PipelineRunning \<and> delivered (fst demo_mono_run) = [[1]]"
    by code_simp
  show ?thesis using pipeline_i2s_mono_passthrough [OF run ev(1) _ _ _ ev(2)] t by simp
qed

text \<open>C28: a peripheral fault while an I2S pipeline runs moves its engine to \<open>Failed\<close>; from
  then on, whatever producer interrupts and consumer polls follow, no frame is added: the
  pipeline stays running so that the consumer drains exactly what was buffered before the
  fault, in order (spec sections 4.3 and 7: a failed engine produces nothing).\<close>

theorem pipeline_fault_stops_production:
  assumes "ctrl_run (i2s_build p reg) drv (pipeline_init k, acq_init n cap z) es = (pl, s)"
    and "pstate pl = PipelineRunning" and "0 < cap" and "\<forall>e \<in> set es'. data_event e"
    and "ctrl_run (i2s_build p reg) drv (pl, s) (HwFault # es') = (pl', s')"
  shows "pstate pl' = PipelineRunning \<and> eng_state (engines s' ! k) = Failed \<and>
    delivered pl' @ map (normalize_frame (p_channels pl) (p_gain pl) \<circ> fst) (engine_frames (engines s' ! k)) =
    delivered pl @ map (normalize_frame (p_channels pl) (p_gain pl) \<circ> fst) (engine_frames (engines s ! k))"
proof -
  from ctrl_run_running [OF assms(1-3)] obtain r where e: "p_engine pl = k" and i: "k < length (engines s)"
    and st: "eng_state (engines s ! k) = Running \<or> eng_state (engines s ! k) = Failed"
    and b: "eng_buffer (engines s ! k) = Some r" and ri: "ring_inv r"
    by blast
  let ?s1 = "engine_fail k s"
  have f: "eng_state (engines ?s1 ! k) = Failed" "eng_buffer (engines ?s1 ! k) = Some r"
    "k < length (engines ?s1)"
    using st b i by (auto simp: engine_fail_def update_engine_nth)
  have run: "ctrl_run (i2s_build p reg) drv (pl, ?s1) es' = (pl', s')" using assms(5) e by simp
  from ctrl_run_failed_engine [OF assms(4,2) _ _ _ ri run] f e obtain r' where
    "pstate pl' = PipelineRunning" "eng_state (engines s' ! k) = Failed" "eng_buffer (engines s' ! k) = Some r'"
    "delivered pl' @ map (normalize_frame (p_channels pl) (p_gain pl) \<circ> fst) (ring_contents r') =
       delivered pl @ map (normalize_frame (p_channels pl) (p_gain pl) \<circ> fst) (ring_contents r)"
    by auto
  with b show ?thesis by (simp add: engine_frames_def)
qed

theorem pipeline_fault_stops_production_witness:
  "delivered (fst (ctrl_run (i2s_build (example_platform VARIANT_ESP32) [''audio_device'']) (\<lambda>ss. True)
      (pipeline_init 0, acq_init 1 2 []) (demo_i2s_pre @ HwFault # demo_after_fault))) = [[1]] \<and>
   eng_state (engines (snd (ctrl_run (i2s_build (example_platform VARIANT_ESP32) [''audio_device'']) (\<lambda>ss. True)
      (pipeline_init 0, acq_init 1 2 []) (demo_i2s_pre @ HwFault # demo_after_fault))) ! 0) = Failed"
proof -
  let ?b = "i2s_build (example_platform VARIANT_ESP32) [''audio_device'']"
  let ?st = "ctrl_run ?b (\<lambda>ss. True) (pipeline_init 0, acq_init 1 2 []) demo_i2s_pre :: 8 mic_pipeline \<times> 8 mic_system"
  let ?st' = "ctrl_run ?b (\<lambda>ss. True) (fst ?st, snd ?st) (HwFault # demo_after_fault)"
  have run: "ctrl_run ?b (\<lambda>ss. True) (pipeline_init 0, acq_init 1 2 []) demo_i2s_pre = (fst ?st, snd ?st)"
    and run': "ctrl_run ?b (\<lambda>ss. True) (fst ?st, snd ?st) (HwFault # demo_after_fault) = (fst ?st', snd ?st')"
    by simp_all
  have ev: "\<forall>e \<in> set demo_after_fault. data_event e" by (simp add: demo_after_fault_def)
  have t: "pstate (fst ?st) = PipelineRunning"
      "map (normalize_frame (p_channels (fst ?st)) (p_gain (fst ?st)) \<circ> fst) (engine_frames (engines (snd ?st) ! 0)) = [[1], [2]]"
      "delivered (fst ?st) = []"
      "map (normalize_frame (p_channels (fst ?st)) (p_gain (fst ?st)) \<circ> fst) (engine_frames (engines (snd ?st') ! 0)) = [[2]]"
    by code_simp+
  have "ctrl_run ?b (\<lambda>ss. True) (pipeline_init 0, acq_init 1 2 []) (demo_i2s_pre @ HwFault # demo_after_fault) = ?st'"
    by (simp only: ctrl_run_append prod.collapse)
  then show ?thesis
    using pipeline_fault_stops_production [OF run t(1) _ ev run'] t by simp
qed

text \<open>C29: a configuration the code rejects (here the validator's errors) fails the setup
  with a non-empty list of errors, before any peripheral access: the pipeline stays
  uninitialised, and no start, interrupt, fault, poll or stop that follows touches the
  pipeline or the engines (spec sections 4.1, 4.6 and 7: fail fast at setup).\<close>

theorem pipeline_setup_rejects:
  assumes "i2s_build p reg raw = Inl rejected" and "k < n" and "\<forall>e \<in> set es. \<forall>r. e \<noteq> Setup r"
  shows "rejected \<noteq> [] \<and> ctrl_setup (i2s_build p reg) raw (pipeline_init k :: 'a::len mic_pipeline) = (Some rejected, pipeline_init k) \<and>
    ctrl_run (i2s_build p reg) drv (pipeline_init k, acq_init n cap z :: 'a mic_system) (Setup raw # es) =
      (pipeline_init k, acq_init n cap z)"
proof -
  have su: "ctrl_setup (i2s_build p reg) raw (pipeline_init k :: 'a mic_pipeline) = (Some rejected, pipeline_init k)"
    using assms(1) by (simp add: ctrl_setup_def pipeline_init_def)
  have "ctrl_run (i2s_build p reg) drv (pipeline_init k, acq_init n cap z :: 'a mic_system) es =
      (pipeline_init k, acq_init n cap z)"
    using assms(2,3) by (intro ctrl_run_unconfigured) (simp_all add: acq_init_def)
  with su i2s_build_Inl_nonempty [OF assms(1)] show ?thesis by simp
qed

theorem pipeline_setup_rejects_witness:
  "i2s_build (example_platform VARIANT_ESP32S3) [''audio_device''] mic_internal_34 = Inl [InvalidAdcPin 34] \<and>
   ctrl_run (i2s_build (example_platform VARIANT_ESP32S3) [''audio_device'']) (\<lambda>ss. True)
     (pipeline_init 0, acq_init 1 2 []) (Setup mic_internal_34 # Start None # Interrupt [3] # Poll # [Stop True]) =
   (pipeline_init 0 :: 8 mic_pipeline, acq_init 1 2 [])"
proof -
  have b: "i2s_build (example_platform VARIANT_ESP32S3) [''audio_device''] mic_internal_34 = Inl [InvalidAdcPin 34]"
    by code_simp
  have ev: "\<forall>e \<in> set [Start None, Interrupt [3 :: 8 word], Poll, Stop True]. \<forall>r :: raw_mic_config. e \<noteq> Setup r"
    by simp
  have "ctrl_run (i2s_build (example_platform VARIANT_ESP32S3) [''audio_device'']) (\<lambda>ss. True)
     (pipeline_init 0, acq_init 1 2 []) (Setup mic_internal_34 # [Start None, Interrupt [3], Poll, Stop True]) =
   (pipeline_init 0 :: 8 mic_pipeline, acq_init 1 2 [])"
    using pipeline_setup_rejects [OF b zero_less_one ev, of "\<lambda>ss. True" 2 "[]"] by blast
  with b show ?thesis by blast
qed

text \<open>C30: the consumer's read loop terminates: from any state a run of an I2S pipeline
  reaches, polling until no frame comes returns (the loop's value is not \<open>None\<close>), whether
  the pipeline is running or not (spec section 4.6: the steady-state loop drains the buffer).\<close>

theorem pipeline_drain_terminates:
  assumes "ctrl_run (i2s_build p reg) drv (pipeline_init k, acq_init n cap z) es = (pl, s)" and "0 < cap"
  shows "\<exists>res. ctrl_drain pl s = Some res"
proof (cases "pstate pl = PipelineRunning")
  case True
  from ctrl_run_running [OF assms(1) True assms(2)] obtain r where "p_engine pl < length (engines s)"
    and "eng_buffer (engines s ! p_engine pl) = Some r" and "ring_inv r"
    by auto
  from ctrl_drain_ring [OF True this] show ?thesis by blast
next
  case False
  then have "ctrl_poll pl s = (pl, s)" by (simp add: ctrl_poll_def)
  then show ?thesis by (subst ctrl_drain.simps) simp
qed

theorem pipeline_drain_terminates_witness:
  "\<exists>res. ctrl_drain (fst demo_mono_run) (snd demo_mono_run) = Some res"
proof -
  have run: "ctrl_run (i2s_build (example_platform VARIANT_ESP32) [''audio_device'']) (\<lambda>ss. True)
      (pipeline_init 0, acq_init 1 2 []) (Setup mic_internal_34 # Start None # demo_mono_events) =
      (fst demo_mono_run, snd demo_mono_run)"
    by (simp only: demo_mono_run_def prod.collapse)
  show ?thesis using pipeline_drain_terminates [OF run] by simp
qed

text \<open>C31: every frame an ADF microphone's engine kept is eventually handed on: after a
  setup, a start and any interleaving of producer interrupts and consumer polls, the read loop
  returns with the buffer empty, the consumer has received exactly the produced frames less
  the dropped ones, in production order and normalised, and the overrun counter is the number
  dropped (spec sections 4.3, 4.6 and 8: no frame is lost except by a counted overrun).\<close>

theorem pipeline_drain_delivers_all:
  assumes "ctrl_run (adf_build reg) drv (pipeline_init k, acq_init n cap z) (Setup raw # Start req # es) = (pl, s)"
    and "\<forall>e \<in> set es. data_event e" and "pstate pl = PipelineRunning" and "0 < cap"
  shows "\<exists>pl' s' kept. ctrl_drain pl s = Some (pl', s') \<and> subseq kept (frames_of es) \<and>
    delivered pl' = map (normalize_frame (p_channels pl) (p_gain pl)) kept \<and>
    engine_frames (engines s' ! k) = [] \<and>
    (\<exists>r. eng_buffer (engines s' ! k) = Some r \<and> overruns r = length (frames_of es) - length kept)"
proof -
  from ctrl_run_first_session [OF assms] obtain ss m kept where g: "p_gain pl = gain_of_stmts ss"
    and ch: "p_channels pl = m" and sub: "subseq kept (frames_of es)"
    and d: "delivered pl @ map (normalize_frame m (gain_of_stmts ss) \<circ> fst) (engine_frames (engines s ! k)) =
      map (normalize_frame m (gain_of_stmts ss)) kept"
    and o: "\<exists>r. eng_buffer (engines s ! k) = Some r \<and> overruns r = length (frames_of es) - length kept"
    by blast
  from ctrl_run_running [OF assms(1,3,4)] obtain r where e: "p_engine pl = k" and i: "k < length (engines s)"
    and b: "eng_buffer (engines s ! k) = Some r" and ri: "ring_inv r"
    by blast
  let ?pl' = "pl\<lparr>delivered := delivered pl @ map (normalize_frame (p_channels pl) (p_gain pl) \<circ> fst) (ring_contents r)\<rparr>"
  from ctrl_drain_ring [OF assms(3) _ _ ri] e i b obtain r' where
    dr: "ctrl_drain pl s = Some (?pl', update_engine k (\<lambda>e. e\<lparr>eng_buffer := Some r'\<rparr>) s)"
    and r': "ring_contents r' = []" "overruns r' = overruns r"
    by auto
  have en: "engines (update_engine k (\<lambda>e. e\<lparr>eng_buffer := Some r'\<rparr>) s) ! k = (engines s ! k)\<lparr>eng_buffer := Some r'\<rparr>"
    using i by (simp add: update_engine_nth)
  have "delivered ?pl' = map (normalize_frame (p_channels pl) (p_gain pl)) kept"
    using d b g ch by (simp add: engine_frames_def)
  with dr r' en o b sub show ?thesis
    by (intro exI [of _ ?pl'] exI [of _ "update_engine k (\<lambda>e. e\<lparr>eng_buffer := Some r'\<rparr>) s"] exI [of _ kept])
      (simp add: engine_frames_def)
qed

theorem pipeline_drain_delivers_all_witness:
  "map_option (delivered \<circ> fst) (ctrl_drain (fst demo_burst_run) (snd demo_burst_run)) = Some [[12], [127]] \<and>
   (\<exists>pl' s' kept. ctrl_drain (fst demo_burst_run) (snd demo_burst_run) = Some (pl', s') \<and>
      subseq kept (frames_of demo_burst_events) \<and>
      delivered pl' = map (normalize_frame (p_channels (fst demo_burst_run)) (p_gain (fst demo_burst_run))) kept \<and>
      engine_frames (engines s' ! 0) = [] \<and>
      (\<exists>r. eng_buffer (engines s' ! 0) = Some r \<and> overruns r = length (frames_of demo_burst_events) - length kept))"
proof -
  have run: "ctrl_run (adf_build [''audio_device'']) (\<lambda>ss. True) (pipeline_init 0, acq_init 1 2 [])
      (Setup demo_adf # Start None # demo_burst_events) = (fst demo_burst_run, snd demo_burst_run)"
    by (simp only: demo_burst_run_def prod.collapse)
  have ev: "\<forall>e \<in> set demo_burst_events. data_event e" by (simp add: demo_burst_events_def)
  have t: "pstate (fst demo_burst_run) = PipelineRunning" by code_simp
  have d: "map_option (delivered \<circ> fst) (ctrl_drain (fst demo_burst_run) (snd demo_burst_run)) = Some [[12], [127]]"
    by code_simp
  have c: "0 < (2::nat)" by simp
  from d pipeline_drain_delivers_all [OF run ev t c] show ?thesis by (rule conjI)
qed

text \<open>C32: the output format stays within the capability the microphone advertises: for
  an I2S microphone, over any run of setups, starts (with any request), interrupts,
  faults, polls and stops, the negotiated channel count is at most one and every frame handed
  to the consumer has at most one sample, so the consumer never receives
  more channels than the offer's \<open>maxChannels = 1\<close> (spec sections 4.4 and 4.5).\<close>

theorem pipeline_output_format:
  assumes "ctrl_run (i2s_build p reg) drv (pipeline_init k, s0) es = (pl, s)"
  shows "p_channels pl \<le> 1 \<and> list_all (\<lambda>f. length f \<le> 1) (delivered pl)"
proof -
  have b: "\<forall>r ss. i2s_build p reg r = Inr ss \<longrightarrow> offer_max_channels (offer_of_registration (last ss)) \<le> 1"
    by (auto dest: i2s_build_last simp: offer_compat_max)
  have "format_ok (fst (pipeline_init k, s0))" by (simp add: format_ok_def pipeline_init_def)
  from format_ok_run [OF b this, of drv es] assms show ?thesis by (simp add: format_ok_def)
qed

theorem pipeline_output_format_witness:
  "delivered (fst demo_i2s_run) = [[1], [2], [9]] \<and> p_channels (fst demo_i2s_run) \<le> 1 \<and>
   list_all (\<lambda>f. length f \<le> 1) (delivered (fst demo_i2s_run))"
proof -
  have run: "ctrl_run (i2s_build (example_platform VARIANT_ESP32) [''audio_device'']) (\<lambda>ss. True)
      (pipeline_init 0, acq_init 1 2 []) (demo_i2s_pre @ Stop True # Start None # demo_i2s_post) =
      (fst demo_i2s_run, snd demo_i2s_run)"
    by (simp only: demo_i2s_run_def prod.collapse)
  have d: "delivered (fst demo_i2s_run) = [[1], [2], [9]]" by code_simp
  from d pipeline_output_format [OF run] show ?thesis by (rule conjI)
qed


end
