(* ===== verification/Loading.thy ===== *)
theory Loading
  imports Pipeline_Paths
begin

text \<open>
  Loading a platform. Each platform module declares the top-level components it needs:
  \<open>DEPENDENCIES = ["i2s_audio"]\<close> (I2S platform, line 24) and
  \<open>DEPENDENCIES = ["adf_pipeline", "microphone"]\<close> (ADF platform, line 17). The framework's
  loader reports \<open>Component <domain> requires component <dependency>\<close> for every dependency
  missing from the configuration and validates the platform's \<open>CONFIG_SCHEMA\<close> only when
  none is missing. \<open>load_platform\<close> puts this check in front of a build function of the
  code; the lemmas show what a missing dependency does to an entry and to a pipeline set up
  from it.
\<close>

definition i2s_DEPENDENCIES :: "string list" where
  "i2s_DEPENDENCIES = [''i2s_audio'']"

definition adf_DEPENDENCIES :: "string list" where
  "adf_DEPENDENCIES = [''adf_pipeline'', ''microphone'']"

text \<open>The loader's check: one error per missing dependency, in the order declared.\<close>

definition check_dependencies :: "string \<Rightarrow> string list \<Rightarrow> string list \<Rightarrow> error list + unit" where
  "check_dependencies domain deps configured =
     (case filter (\<lambda>d. d \<notin> set configured) deps of
        [] \<Rightarrow> Inr ()
      | missing \<Rightarrow> Inl (map (RequiresComponent domain) missing))"

definition load_platform :: "string \<Rightarrow> string list \<Rightarrow> 'r mic_build \<Rightarrow> string list \<Rightarrow> 'r mic_build" where
  "load_platform domain deps build configured r =
     (case check_dependencies domain deps configured of
        Inl es \<Rightarrow> Inl es
      | Inr _ \<Rightarrow> build r)"

abbreviation i2s_load :: "platform \<Rightarrow> string list \<Rightarrow> string list \<Rightarrow> raw_mic_config mic_build" where
  "i2s_load p reg configured \<equiv> load_platform ''microphone.i2s_audio'' i2s_DEPENDENCIES (i2s_build p reg) configured"

abbreviation adf_load :: "string list \<Rightarrow> string list \<Rightarrow> raw_adf_config mic_build" where
  "adf_load reg configured \<equiv> load_platform ''microphone.adf_pipeline'' adf_DEPENDENCIES (adf_build reg) configured"

section \<open>Lemmas\<close>

lemma missing_deps_Nil: "filter (\<lambda>d. d \<notin> set configured) deps = [] \<longleftrightarrow> set deps \<subseteq> set configured"
  by (auto simp: filter_empty_conv)

lemma check_dependencies_eq:
  "check_dependencies domain deps configured =
     (if set deps \<subseteq> set configured then Inr ()
      else Inl (map (RequiresComponent domain) (filter (\<lambda>d. d \<notin> set configured) deps)))"
proof (cases "filter (\<lambda>d. d \<notin> set configured) deps")
  case Nil
  then show ?thesis using missing_deps_Nil [of configured deps] by (simp add: check_dependencies_def)
next
  case (Cons d ds)
  then have "\<not> set deps \<subseteq> set configured" using missing_deps_Nil [of configured deps] by simp
  with Cons show ?thesis by (simp add: check_dependencies_def)
qed


lemma load_platform_missing:
  "\<not> set deps \<subseteq> set configured \<Longrightarrow>
   load_platform domain deps build configured r =
     Inl (map (RequiresComponent domain) (filter (\<lambda>d. d \<notin> set configured) deps))"
  by (simp add: load_platform_def check_dependencies_eq)


lemma adf_load_missing:
  "\<not> {''adf_pipeline'', ''microphone''} \<subseteq> set configured \<Longrightarrow>
   adf_load reg configured r =
     Inl (map (RequiresComponent ''microphone.adf_pipeline'')
        (filter (\<lambda>d. d \<notin> set configured) [''adf_pipeline'', ''microphone'']))"
  by (simp add: load_platform_missing adf_DEPENDENCIES_def)


text \<open>The entry of the I2S scenario, loaded with and without \<open>i2s_audio\<close> configured; an ADF
  entry with neither of its dependencies.\<close>

lemma loading_examples:
  "i2s_load (example_platform VARIANT_ESP32) [''audio_device''] [''esp32'', ''i2s_audio'', ''microphone''] mic_internal_34 =
     Inr [NewPvariable, RegisterComponent, SetAdcChannel 6, RegisterMicrophone (Some [(''max_channels'', 1)])]"
  "i2s_load (example_platform VARIANT_ESP32) [''audio_device''] [''esp32'', ''microphone''] mic_internal_34 =
     Inl [RequiresComponent ''microphone.i2s_audio'' ''i2s_audio'']"
  "adf_load [''audio_device''] [''esp32''] demo_adf =
     Inl [RequiresComponent ''microphone.adf_pipeline'' ''adf_pipeline'',
          RequiresComponent ''microphone.adf_pipeline'' ''microphone'']"
  by code_simp+

section \<open>Properties of loading\<close>



end
