(* ===== verification/Codegen_Types.thy ===== *)
theory Codegen_Types
  imports Capability
begin

text \<open>
  The C++ classes the two microphone platforms declare and the typing of the statements
  their \<open>to_code\<close> generates. \<open>i2s_audio_ns.class_("I2SAudioMicrophone", I2SReader,
  microphone.Microphone, cg.Component)\<close> and \<open>esp_adf_ns.class_("ADFMicrophone",
  ADFPipelineController, microphone.Microphone, cg.Component)\<close> give each class its bases;
  \<open>cv.declare_id\<close> in the schema gives the generated variable its class. A generated
  statement is well typed when the variable's class inherits from the class the called
  function or method expects (\<open>MockObjClass.inherits_from\<close> of the code generator).
\<close>

datatype cpp_class =
    Component
  | Microphone
  | I2SReader
  | ADFPipelineController
  | I2SAudioMicrophone
  | ADFMicrophone

definition I2SAudioMicrophone_bases :: "cpp_class list" where
  "I2SAudioMicrophone_bases = [I2SReader, Microphone, Component]"

definition ADFMicrophone_bases :: "cpp_class list" where
  "ADFMicrophone_bases = [ADFPipelineController, Microphone, Component]"

text \<open>The framework's classes are declared elsewhere; none of them has a base here.\<close>

fun class_bases :: "cpp_class \<Rightarrow> cpp_class list" where
  "class_bases I2SAudioMicrophone = I2SAudioMicrophone_bases"
| "class_bases ADFMicrophone = ADFMicrophone_bases"
| "class_bases c = []"

inductive inherits_from :: "cpp_class \<Rightarrow> cpp_class \<Rightarrow> bool" where
  self: "inherits_from c c"
| parent: "b \<in> set (class_bases c) \<Longrightarrow> inherits_from b d \<Longrightarrow> inherits_from c d"

code_pred inherits_from .

text \<open>The class each statement needs of the variable: \<open>register_component\<close> a component,
  \<open>register_microphone\<close> a microphone, \<open>register_i2s_reader\<close> an I2S reader,
  \<open>setup_pipeline_controller\<close> a pipeline controller, and the setters are methods of the
  platform classes themselves.\<close>

fun stmt_requires :: "cg_stmt \<Rightarrow> cpp_class option" where
  "stmt_requires NewPvariable = None"
| "stmt_requires RegisterComponent = Some Component"
| "stmt_requires (SetAdcChannel ch) = Some I2SAudioMicrophone"
| "stmt_requires RegisterI2sReader = Some I2SReader"
| "stmt_requires (SetGainLog2 g) = Some ADFMicrophone"
| "stmt_requires SetupPipelineController = Some ADFPipelineController"
| "stmt_requires (RegisterMicrophone d) = Some Microphone"

definition stmts_typed :: "cpp_class \<Rightarrow> cg_stmt list \<Rightarrow> bool" where
  "stmts_typed cls ss =
     list_all (\<lambda>s. case stmt_requires s of None \<Rightarrow> True | Some c \<Rightarrow> inherits_from cls c) ss"

text \<open>The classes \<open>cv.declare_id\<close> gives the variables of the two platforms.\<close>

definition i2s_id_class :: cpp_class where
  "i2s_id_class = I2SAudioMicrophone"

definition adf_id_class :: cpp_class where
  "adf_id_class = ADFMicrophone"

section \<open>Lemmas\<close>

lemma class_bases_root: "b \<in> set (class_bases c) \<Longrightarrow> class_bases b = []"
  by (cases c) (auto simp: I2SAudioMicrophone_bases_def ADFMicrophone_bases_def)

text \<open>The hierarchy is one level deep: a class inherits from itself and its direct bases.\<close>

lemma inherits_from_iff: "inherits_from c d \<longleftrightarrow> c = d \<or> d \<in> set (class_bases c)"
proof
  assume "inherits_from c d"
  then show "c = d \<or> d \<in> set (class_bases c)"
  proof induction
    case (parent b c d)
    from parent.IH class_bases_root [OF parent.hyps(1)] have "b = d" by simp
    with parent.hyps(1) show ?case by simp
  qed simp
next
  assume "c = d \<or> d \<in> set (class_bases c)"
  then show "inherits_from c d" by (auto intro: inherits_from.intros)
qed

lemma stmt_requires_register [simp]: "stmt_requires (register_microphone_compat ps) = Some Microphone"
  by (simp add: register_microphone_compat_def)

lemmas class_defs = inherits_from_iff I2SAudioMicrophone_bases_def ADFMicrophone_bases_def
  i2s_id_class_def adf_id_class_def

section \<open>Properties of the generated code\<close>

text \<open>C33: every statement list the I2S platform generates is well typed for the class its
  schema declares: an \<open>I2SAudioMicrophone\<close> is a component, a microphone and an I2S reader,
  and has \<open>set_adc_channel\<close>, for the internal-ADC and the external branch alike.\<close>

theorem i2s_codegen_well_typed:
  assumes "i2s_build p reg raw = Inr ss"
  shows "stmts_typed i2s_id_class ss"
proof -
  from i2s_build_InrD [OF assms] obtain c where "i2s_to_code p reg c = Inr ss" by blast
  from i2s_to_code_Inr_cases [OF this] show ?thesis
    by (auto simp: stmts_typed_def class_defs)
qed

theorem i2s_codegen_well_typed_witness:
  "i2s_build (example_platform VARIANT_ESP32) [''audio_device''] mic_external_pdm =
     Inr [NewPvariable, RegisterComponent, RegisterI2sReader, RegisterMicrophone (Some [(''max_channels'', 1)])] \<and>
   stmts_typed i2s_id_class [NewPvariable, RegisterComponent, RegisterI2sReader, RegisterMicrophone (Some [(''max_channels'', 1)])]"
proof -
  have b: "i2s_build (example_platform VARIANT_ESP32) [''audio_device''] mic_external_pdm =
     Inr [NewPvariable, RegisterComponent, RegisterI2sReader, RegisterMicrophone (Some [(''max_channels'', 1)])]"
    by code_simp
  from b i2s_codegen_well_typed [OF b] show ?thesis by (rule conjI)
qed

text \<open>C34: every statement list the ADF platform generates is well typed for the class its
  schema declares (an \<open>ADFMicrophone\<close> has \<open>set_gain_log2\<close> and is a pipeline controller,
  a component and a microphone), and it is not well typed for the I2S platform's class: the
  two platforms' code is not interchangeable.\<close>

theorem adf_codegen_well_typed:
  assumes "adf_build reg raw = Inr ss"
  shows "stmts_typed adf_id_class ss \<and> \<not> stmts_typed i2s_id_class ss"
proof -
  from assms obtain c where "ss = adf_to_code reg c"
    by (auto simp: adf_build_def split: sum.splits)
  then show ?thesis
    by (simp add: stmts_typed_def adf_to_code_def class_defs)
qed

theorem adf_codegen_well_typed_witness:
  "adf_build [''audio_device''] \<lparr>raw_gain_log2 = Some 3\<rparr> =
     Inr [NewPvariable, SetGainLog2 3, RegisterComponent, SetupPipelineController,
          RegisterMicrophone (Some [(''max_channels'', 1)])] \<and>
   stmts_typed adf_id_class [NewPvariable, SetGainLog2 3, RegisterComponent, SetupPipelineController,
          RegisterMicrophone (Some [(''max_channels'', 1)])]"
proof -
  have b: "adf_build [''audio_device''] \<lparr>raw_gain_log2 = Some 3\<rparr> =
     Inr [NewPvariable, SetGainLog2 3, RegisterComponent, SetupPipelineController,
          RegisterMicrophone (Some [(''max_channels'', 1)])]"
    by code_simp
  from b conjunct1 [OF adf_codegen_well_typed [OF b]] show ?thesis by (rule conjI)
qed

end
