(* ===== verification/Ring_Concurrency.thy ===== *)
theory Ring_Concurrency
  imports Sample_Buffer
begin

text \<open>
  The access discipline of spec section 5 at the level of the individual memory
  operations: the producer (interrupt context) stores a frame into the slot at the write
  cursor and only then advances \<open>wr\<close>; the consumer (pipeline loop) loads the slot at the
  read cursor and only then advances \<open>rd\<close>. Each cursor is read and written atomically,
  and a store before a cursor advance is visible once the advance is. The two contexts
  interleave at every one of these operations, as a schedule of \<open>Producer\<close> and
  \<open>Consumer\<close> moves. The lemmas show that every move is, on the abstract queue, no step
  or exactly one atomic buffer event, so that any interleaving is simulated by a run of the
  atomic ring operations of \<open>Sample_Buffer\<close> that the engine uses; and that any interleaving
  delivers the frames the producer took, in order, less exactly the counted overruns.
\<close>

datatype agent = Producer | Consumer

text \<open>\<open>sp_prod\<close> is the frame the producer has stored but not yet published, \<open>sp_cons\<close> the
  frame the consumer has loaded but not yet released; \<open>sp_input\<close> the frames still to come
  from the hardware, \<open>sp_out\<close> those handed on.\<close>

record 'a spsc =
  sp_ring :: "'a ring"
  sp_input :: "'a list"
  sp_prod :: "'a option"
  sp_cons :: "'a option"
  sp_out :: "'a list"

definition spsc_init :: "nat \<Rightarrow> 'a \<Rightarrow> 'a list \<Rightarrow> 'a spsc" where
  "spsc_init capacity fill xs =
     \<lparr>sp_ring = ring_new capacity fill, sp_input = xs, sp_prod = None, sp_cons = None, sp_out = []\<rparr>"

text \<open>One move of one context. The producer, idle, takes the next frame: on a full ring it
  drops and counts it, otherwise it stores it at \<open>wr\<close>; with a stored frame it publishes it by
  advancing \<open>wr\<close>. The consumer, idle, loads the slot at \<open>rd\<close> if the ring is not empty; with
  a loaded frame it advances \<open>rd\<close> and hands the frame on.\<close>

fun spsc_step :: "agent \<Rightarrow> 'a spsc \<Rightarrow> 'a spsc" where
  "spsc_step Producer s =
     (let r = sp_ring s in
      case sp_prod s of
        None \<Rightarrow>
          (case sp_input s of
             [] \<Rightarrow> s
           | x # xs \<Rightarrow>
               (if wr r - rd r = length (slots r)
                then s\<lparr>sp_ring := r\<lparr>overruns := overruns r + 1\<rparr>, sp_input := xs\<rparr>
                else s\<lparr>sp_ring := r\<lparr>slots := (slots r)[wr r mod length (slots r) := x]\<rparr>,
                       sp_input := xs, sp_prod := Some x\<rparr>))
      | Some x \<Rightarrow> s\<lparr>sp_ring := r\<lparr>wr := wr r + 1\<rparr>, sp_prod := None\<rparr>)"
| "spsc_step Consumer s =
     (let r = sp_ring s in
      case sp_cons s of
        None \<Rightarrow>
          (if rd r = wr r then s
           else s\<lparr>sp_cons := Some (slots r ! (rd r mod length (slots r)))\<rparr>)
      | Some v \<Rightarrow> s\<lparr>sp_ring := r\<lparr>rd := rd r + 1\<rparr>, sp_cons := None, sp_out := sp_out s @ [v]\<rparr>)"

fun spsc_run :: "agent list \<Rightarrow> 'a spsc \<Rightarrow> 'a spsc" where
  "spsc_run [] s = s"
| "spsc_run (a # as) s = spsc_run as (spsc_step a s)"

text \<open>What every interleaving keeps: the ring's invariant; a stored, unpublished frame sits
  in the free slot at \<open>wr\<close>; a loaded, unreleased frame is the one at \<open>rd\<close> of a non-empty
  ring.\<close>

definition spsc_inv :: "'a spsc \<Rightarrow> bool" where
  "spsc_inv s \<longleftrightarrow>
     ring_inv (sp_ring s) \<and>
     (case sp_prod s of None \<Rightarrow> True
      | Some x \<Rightarrow> wr (sp_ring s) - rd (sp_ring s) < length (slots (sp_ring s)) \<and>
          slots (sp_ring s) ! (wr (sp_ring s) mod length (slots (sp_ring s))) = x) \<and>
     (case sp_cons s of None \<Rightarrow> True
      | Some v \<Rightarrow> rd (sp_ring s) < wr (sp_ring s) \<and>
          slots (sp_ring s) ! (rd (sp_ring s) mod length (slots (sp_ring s))) = v)"

text \<open>The frames taken from the hardware and not yet in the ring: handed on, buffered, or
  stored and unpublished, in this order.\<close>

definition spsc_seen :: "'a spsc \<Rightarrow> 'a list" where
  "spsc_seen s = sp_out s @ ring_contents (sp_ring s) @ (case sp_prod s of None \<Rightarrow> [] | Some x \<Rightarrow> [x])"

text \<open>The frame the producer has stored and not yet published, as a list.\<close>

definition spsc_pending :: "'a spsc \<Rightarrow> 'a list" where
  "spsc_pending s = (case sp_prod s of None \<Rightarrow> [] | Some x \<Rightarrow> [x])"

text \<open>Fixture: a two-slot ring and three frames; the producer stores and publishes two,
  the consumer loads the first, and the third finds the ring full.\<close>

definition demo_sched :: "agent list" where
  "demo_sched = [Producer, Producer, Producer, Producer, Consumer, Producer]"

definition demo_spsc :: "nat spsc" where
  "demo_spsc = spsc_run demo_sched (spsc_init 2 0 [10, 20, 30])"

section \<open>Lemmas\<close>

text \<open>A store into the free slot at \<open>wr\<close> is invisible; publishing it appends the slot.\<close>

lemma ring_contents_store:
  assumes "ring_inv r" and "wr r - rd r < length (slots r)"
  shows "ring_contents (r\<lparr>slots := (slots r)[wr r mod length (slots r) := x]\<rparr>) = ring_contents r"
proof -
  let ?c = "length (slots r)"
  have c: "0 < ?c" using assms(1) by (simp add: ring_inv_def)
  have "(slots r)[wr r mod ?c := x] ! (i mod ?c) = slots r ! (i mod ?c)" if "i \<in> set [rd r..<wr r]" for i
  proof -
    have "wr r mod ?c \<noteq> i mod ?c" using that ring_slot_distinct [OF c _ _ assms(2), of i] by auto
    then show ?thesis by (rule nth_list_update_neq)
  qed
  then show ?thesis by (simp add: ring_contents_def)
qed

lemma ring_contents_publish:
  "rd r \<le> wr r \<Longrightarrow> ring_contents (r\<lparr>wr := Suc (wr r)\<rparr>) = ring_contents r @ [slots r ! (wr r mod length (slots r))]"
  by (simp add: ring_contents_def)

lemma ring_slot_store_other:
  assumes "ring_inv r" and "wr r - rd r < length (slots r)" and "rd r < wr r"
  shows "(slots r)[wr r mod length (slots r) := x] ! (rd r mod length (slots r)) = slots r ! (rd r mod length (slots r))"
proof -
  have "0 < length (slots r)" using assms(1) by (simp add: ring_inv_def)
  from ring_slot_distinct [OF this _ assms(3,2)] show ?thesis by (simp add: nth_list_update_neq)
qed

text \<open>One move: the invariant is kept, and the move takes at most one frame from the
  hardware, which it either adds to the frames seen or drops and counts.\<close>

lemma spsc_step_conserves:
  assumes "spsc_inv s"
  shows "spsc_inv (spsc_step a s) \<and> length (slots (sp_ring (spsc_step a s))) = length (slots (sp_ring s)) \<and>
    (\<exists>ys. sp_input s = ys @ sp_input (spsc_step a s) \<and>
       (spsc_seen (spsc_step a s) = spsc_seen s @ ys \<and> overruns (sp_ring (spsc_step a s)) = overruns (sp_ring s) \<or>
        spsc_seen (spsc_step a s) = spsc_seen s \<and> overruns (sp_ring (spsc_step a s)) = overruns (sp_ring s) + length ys))"
proof -
  let ?r = "sp_ring s"
  let ?c = "length (slots ?r)"
  have ri: "ring_inv ?r" using assms by (simp add: spsc_inv_def)
  show ?thesis
  proof (cases a)
    case Producer
    show ?thesis
    proof (cases "sp_prod s")
      case None
      show ?thesis
      proof (cases "sp_input s")
        case Nil
        with Producer None assms show ?thesis by simp
      next
        case (Cons x xs)
        show ?thesis
        proof (cases "wr ?r - rd ?r = ?c")
          case True
          with Producer None Cons assms show ?thesis
            by (auto simp: spsc_inv_def spsc_seen_def ring_inv_def Let_def split: option.splits intro: exI [of _ "[x]"])
        next
          case False
          then have lt: "wr ?r - rd ?r < ?c" using ri by (simp add: ring_inv_def)
          have st: "ring_contents (?r\<lparr>slots := (slots ?r)[wr ?r mod ?c := x]\<rparr>) = ring_contents ?r"
            by (rule ring_contents_store [OF ri lt])
          have c: "0 < ?c" using ri by (simp add: ring_inv_def)
          have "spsc_inv (spsc_step a s)"
            using Producer None Cons False lt c ri assms ring_slot_store_other [OF ri lt]
            by (auto simp: spsc_inv_def ring_inv_def Let_def split: option.splits)
          with Producer None Cons False st show ?thesis
            by (simp add: spsc_seen_def Let_def)
        qed
      qed
    next
      case (Some x)
      then have lt: "wr ?r - rd ?r < ?c" and sx: "slots ?r ! (wr ?r mod ?c) = x"
        using assms by (simp_all add: spsc_inv_def)
      have le: "rd ?r \<le> wr ?r" using ri by (simp add: ring_inv_def)
      have "spsc_inv (spsc_step a s)"
        using Producer Some lt le ri assms by (auto simp: spsc_inv_def ring_inv_def Let_def split: option.splits)
      with Producer Some show ?thesis
        by (simp add: spsc_seen_def Let_def ring_contents_publish [OF le] sx)
    qed
  next
    case Consumer
    show ?thesis
    proof (cases "sp_cons s")
      case None
      with Consumer assms show ?thesis
        by (auto simp: spsc_inv_def spsc_seen_def ring_inv_def Let_def split: option.splits)
    next
      case (Some v)
      then have lt: "rd ?r < wr ?r" and sv: "slots ?r ! (rd ?r mod ?c) = v"
        using assms by (simp_all add: spsc_inv_def)
      have "spsc_inv (spsc_step a s)"
        using Consumer Some lt ri assms by (auto simp: spsc_inv_def ring_inv_def Let_def split: option.splits)
      with Consumer Some show ?thesis
        by (simp add: spsc_seen_def Let_def ring_contents_pop [OF lt] sv)
    qed
  qed
qed

text \<open>Any run: the invariant holds, and the frames seen are the frames taken from the
  hardware less exactly the counted drops, in order.\<close>

lemma spsc_run_conserves:
  "spsc_inv s \<Longrightarrow>
   spsc_inv (spsc_run as s) \<and> length (slots (sp_ring (spsc_run as s))) = length (slots (sp_ring s)) \<and>
   (\<exists>taken kept. sp_input s = taken @ sp_input (spsc_run as s) \<and> subseq kept taken \<and>
      spsc_seen (spsc_run as s) = spsc_seen s @ kept \<and>
      overruns (sp_ring (spsc_run as s)) = overruns (sp_ring s) + (length taken - length kept))"
proof (induction as arbitrary: s)
  case Nil
  show ?case using Nil by (intro conjI exI [of _ "[]"]) simp_all
next
  case (Cons a as)
  let ?s1 = "spsc_step a s"
  from spsc_step_conserves [OF Cons.prems] obtain ys where i1: "spsc_inv ?s1"
    and l1: "length (slots (sp_ring ?s1)) = length (slots (sp_ring s))"
    and in1: "sp_input s = ys @ sp_input ?s1"
    and c1: "spsc_seen ?s1 = spsc_seen s @ ys \<and> overruns (sp_ring ?s1) = overruns (sp_ring s) \<or>
        spsc_seen ?s1 = spsc_seen s \<and> overruns (sp_ring ?s1) = overruns (sp_ring s) + length ys"
    by blast
  from Cons.IH [OF i1] obtain taken kept where i2: "spsc_inv (spsc_run as ?s1)"
    and l2: "length (slots (sp_ring (spsc_run as ?s1))) = length (slots (sp_ring ?s1))"
    and in2: "sp_input ?s1 = taken @ sp_input (spsc_run as ?s1)" and sub: "subseq kept taken"
    and c2: "spsc_seen (spsc_run as ?s1) = spsc_seen ?s1 @ kept"
    and o2: "overruns (sp_ring (spsc_run as ?s1)) = overruns (sp_ring ?s1) + (length taken - length kept)"
    by blast
  have len: "length kept \<le> length taken" using sub by (rule list_emb_length)
  from c1 show ?case
  proof
    assume "spsc_seen ?s1 = spsc_seen s @ ys \<and> overruns (sp_ring ?s1) = overruns (sp_ring s)"
    with i2 l1 l2 in1 in2 sub c2 o2 len show ?case
      by (intro conjI exI [of _ "ys @ taken"] exI [of _ "ys @ kept"]) (simp_all add: subseq_append')
  next
    assume "spsc_seen ?s1 = spsc_seen s \<and> overruns (sp_ring ?s1) = overruns (sp_ring s) + length ys"
    with i2 l1 l2 in1 in2 sub c2 o2 len show ?case
      by (intro conjI exI [of _ "ys @ taken"] exI [of _ kept]) auto
  qed
qed

text \<open>The consumer alone empties the ring: every consumer move either loads the frame at
  \<open>rd\<close> or releases the loaded one, so twice the number of buffered frames is enough.\<close>

lemma spsc_consumer_drains:
  assumes "spsc_inv s"
    and "2 * length (ring_contents (sp_ring s)) - (case sp_cons s of None \<Rightarrow> 0 | Some v \<Rightarrow> 1) \<le> k"
  shows "ring_contents (sp_ring (spsc_run (replicate k Consumer) s)) = [] \<and>
    sp_cons (spsc_run (replicate k Consumer) s) = None \<and>
    sp_prod (spsc_run (replicate k Consumer) s) = sp_prod s \<and>
    spsc_seen (spsc_run (replicate k Consumer) s) = spsc_seen s \<and>
    overruns (sp_ring (spsc_run (replicate k Consumer) s)) = overruns (sp_ring s)"
  using assms
proof (induction k arbitrary: s)
  case 0
  show ?case
  proof (cases "sp_cons s")
    case None
    with "0.prems"(2) show ?thesis by simp
  next
    case (Some v)
    then have "ring_contents (sp_ring s) \<noteq> []"
      using "0.prems"(1) by (auto simp: spsc_inv_def ring_contents_def)
    then have "0 < length (ring_contents (sp_ring s))" by simp
    with Some "0.prems"(2) show ?thesis by simp
  qed
next
  case (Suc k)
  let ?s1 = "spsc_step Consumer s"
  let ?r = "sp_ring s"
  have same: "sp_prod ?s1 = sp_prod s" "sp_input ?s1 = sp_input s" by (simp_all add: Let_def split: option.splits)
  from spsc_step_conserves [OF Suc.prems(1), of Consumer] same(2)
  have i1: "spsc_inv ?s1" and o1: "overruns (sp_ring ?s1) = overruns (sp_ring s)" by auto
  have seen: "spsc_seen ?s1 = spsc_seen s"
  proof (cases "sp_cons s")
    case (Some v)
    then have "rd ?r < wr ?r" and "slots ?r ! (rd ?r mod length (slots ?r)) = v"
      using Suc.prems(1) by (simp_all add: spsc_inv_def)
    with Some show ?thesis by (simp add: spsc_seen_def Let_def ring_contents_pop)
  qed (simp add: spsc_seen_def Let_def)
  have "2 * length (ring_contents (sp_ring ?s1)) - (case sp_cons ?s1 of None \<Rightarrow> 0 | Some v \<Rightarrow> 1) \<le> k"
  proof (cases "sp_cons s")
    case None
    then show ?thesis
    proof (cases "rd ?r = wr ?r")
      case True
      with None show ?thesis by (simp add: ring_contents_def)
    next
      case False
      with None Suc.prems(2) show ?thesis by (simp add: Let_def)
    qed
  next
    case (Some v)
    then have lt: "rd ?r < wr ?r" using Suc.prems(1) by (simp add: spsc_inv_def)
    then have "length (ring_contents ?r) = Suc (length (ring_contents (?r\<lparr>rd := Suc (rd ?r)\<rparr>)))"
      by (simp add: ring_contents_pop [OF lt])
    with Some Suc.prems(2) show ?thesis by (simp add: Let_def)
  qed
  from Suc.IH [OF i1 this] same seen o1 show ?case by simp
qed

lemma spsc_init_inv: "0 < capacity \<Longrightarrow> spsc_inv (spsc_init capacity fill xs)"
  by (simp add: spsc_inv_def spsc_init_def ring_new_inv)

lemma spsc_init_simps [simp]:
  "spsc_seen (spsc_init capacity fill xs) = []" "sp_input (spsc_init capacity fill xs) = xs"
  "overruns (sp_ring (spsc_init capacity fill xs)) = 0"
  "length (slots (sp_ring (spsc_init capacity fill xs))) = capacity"
  by (simp_all add: spsc_init_def spsc_seen_def)

section \<open>Refinement of the atomic buffer events\<close>

lemma fifo_run_append:
  "fifo_run f (es @ es') = (let (o1, f1) = fifo_run f es; (o2, f2) = fifo_run f1 es' in (o1 @ o2, f2))"
  by (induction f es rule: fifo_run.induct) (simp_all split: prod.splits option.splits)

text \<open>Every move of the split producer or consumer is, on the abstract queue, either no
  step at all (a store not yet published, a load not yet released, an idle move) or exactly
  one atomic buffer event: a publish or a drop is a \<open>Produce\<close>, a release a \<open>Consume\<close>.\<close>

lemma spsc_step_refines:
  assumes "spsc_inv s"
  shows "\<exists>es ys new. sp_input s = ys @ sp_input (spsc_step a s) \<and>
    produced es @ spsc_pending (spsc_step a s) = spsc_pending s @ ys \<and>
    sp_out (spsc_step a s) = sp_out s @ new \<and>
    fifo_run (ring_abs (sp_ring s)) es = (new, ring_abs (sp_ring (spsc_step a s)))"
proof -
  let ?r = "sp_ring s"
  let ?c = "length (slots ?r)"
  have ri: "ring_inv ?r" using assms by (simp add: spsc_inv_def)
  then have le: "rd ?r \<le> wr ?r" and full: "wr ?r - rd ?r \<le> ?c" by (simp_all add: ring_inv_def)
  show ?thesis
  proof (cases a)
    case Producer
    show ?thesis
    proof (cases "sp_prod s")
      case None
      show ?thesis
      proof (cases "sp_input s")
        case Nil
        with Producer None show ?thesis by (intro exI [of _ "[]"]) (simp add: spsc_pending_def)
      next
        case (Cons x xs)
        show ?thesis
        proof (cases "wr ?r - rd ?r = ?c")
          case True
          with Producer None Cons ri show ?thesis
            by (intro exI [of _ "[Produce x]"] exI [of _ "[x]"] exI [of _ "[]"])
              (simp add: spsc_pending_def fifo_push_def ring_abs_def length_ring_contents Let_def)
        next
          case False
          then have lt: "wr ?r - rd ?r < ?c" using full by simp
          with Producer None Cons ri show ?thesis
            by (intro exI [of _ "[]"] exI [of _ "[x]"] exI [of _ "[]"])
              (simp add: spsc_pending_def ring_abs_def ring_contents_store Let_def)
        qed
      qed
    next
      case (Some x)
      then have lt: "wr ?r - rd ?r < ?c" and sx: "slots ?r ! (wr ?r mod ?c) = x"
        using assms by (simp_all add: spsc_inv_def)
      with Producer Some ri le show ?thesis
        by (intro exI [of _ "[Produce x]"] exI [of _ "[]"] exI [of _ "[]"])
          (simp add: spsc_pending_def fifo_push_def ring_abs_def length_ring_contents ring_contents_publish Let_def)
    qed
  next
    case Consumer
    show ?thesis
    proof (cases "sp_cons s")
      case None
      with Consumer show ?thesis by (intro exI [of _ "[]"] exI [of _ "[]"] exI [of _ "[]"]) (simp add: spsc_pending_def Let_def)
    next
      case (Some v)
      then have lt: "rd ?r < wr ?r" and sv: "slots ?r ! (rd ?r mod ?c) = v"
        using assms by (simp_all add: spsc_inv_def)
      with Consumer Some show ?thesis
        by (intro exI [of _ "[Consume]"] exI [of _ "[]"] exI [of _ "[v]"])
          (simp add: spsc_pending_def fifo_pop_def ring_abs_def ring_contents_pop [OF lt] Let_def)
    qed
  qed
qed

text \<open>Any interleaving of split moves from an empty ring is indistinguishable, on the
  abstract queue, from a run of atomic buffer events: the events produce the frames taken
  less the one stored and unpublished, and the run hands on exactly what the consumer
  handed on. The engine's atomic \<open>ring_push\<close> and \<open>ring_pop\<close> are therefore a sound
  abstraction of the split producer and consumer.\<close>

lemma spsc_run_refines:
  "spsc_inv s \<Longrightarrow>
   \<exists>es taken new. sp_input s = taken @ sp_input (spsc_run as s) \<and>
     produced es @ spsc_pending (spsc_run as s) = spsc_pending s @ taken \<and>
     sp_out (spsc_run as s) = sp_out s @ new \<and>
     fifo_run (ring_abs (sp_ring s)) es = (new, ring_abs (sp_ring (spsc_run as s)))"
proof (induction as arbitrary: s)
  case Nil
  then show ?case by (intro exI [of _ "[]"]) simp
next
  case (Cons a as)
  let ?s1 = "spsc_step a s"
  from spsc_step_refines [OF Cons.prems, of a] obtain es1 ys1 new1 where
    i1: "sp_input s = ys1 @ sp_input ?s1" and p1: "produced es1 @ spsc_pending ?s1 = spsc_pending s @ ys1"
    and o1: "sp_out ?s1 = sp_out s @ new1" and f1: "fifo_run (ring_abs (sp_ring s)) es1 = (new1, ring_abs (sp_ring ?s1))"
    by blast
  have inv1: "spsc_inv ?s1" using spsc_step_conserves [OF Cons.prems] by blast
  from Cons.IH [OF inv1] obtain es2 ys2 new2 where
    i2: "sp_input ?s1 = ys2 @ sp_input (spsc_run as ?s1)"
    and p2: "produced es2 @ spsc_pending (spsc_run as ?s1) = spsc_pending ?s1 @ ys2"
    and o2: "sp_out (spsc_run as ?s1) = sp_out ?s1 @ new2"
    and f2: "fifo_run (ring_abs (sp_ring ?s1)) es2 = (new2, ring_abs (sp_ring (spsc_run as ?s1)))"
    by blast
  have "produced (es1 @ es2) = produced es1 @ produced es2" by (induction es1 rule: produced.induct) simp_all
  then have "produced (es1 @ es2) @ spsc_pending (spsc_run as ?s1) = spsc_pending s @ ys1 @ ys2"
    using p1 p2 by (metis append.assoc)
  with i1 i2 o1 o2 f1 f2 show ?case
    by (intro exI [of _ "es1 @ es2"] exI [of _ "ys1 @ ys2"] exI [of _ "new1 @ new2"])
      (simp add: fifo_run_append)
qed

text \<open>From an empty ring: the split run is simulated by the atomic ring operations the
  engine performs, event for event on the abstract queue.\<close>

lemma spsc_simulated_by_ring_run:
  assumes "0 < capacity" and "spsc_run as (spsc_init capacity fill xs) = s"
  shows "\<exists>es taken. xs = taken @ sp_input s \<and> produced es @ spsc_pending s = taken \<and>
    fst (ring_run (ring_new capacity fill) es) = sp_out s \<and>
    ring_abs (snd (ring_run (ring_new capacity fill) es)) = ring_abs (sp_ring s)"
proof -
  have i0: "spsc_inv (spsc_init capacity fill xs)" using assms(1) by (rule spsc_init_inv)
  have z: "sp_out (spsc_init capacity fill xs) = []" "spsc_pending (spsc_init capacity fill xs) = []"
    "sp_ring (spsc_init capacity fill xs) = ring_new capacity fill"
    by (simp_all add: spsc_init_def spsc_pending_def)
  let ?s0 = "spsc_init capacity fill xs"
  from spsc_run_refines [OF i0, of as] obtain es taken new where
    a: "sp_input ?s0 = taken @ sp_input (spsc_run as ?s0)"
    and b: "produced es @ spsc_pending (spsc_run as ?s0) = spsc_pending ?s0 @ taken"
    and c: "sp_out (spsc_run as ?s0) = sp_out ?s0 @ new"
    and d: "fifo_run (ring_abs (sp_ring ?s0)) es = (new, ring_abs (sp_ring (spsc_run as ?s0)))"
    by blast
  from a b c d have "xs = taken @ sp_input s" and "produced es @ spsc_pending s = taken"
    and f: "fifo_run (ring_abs (ring_new capacity fill)) es = (sp_out s, ring_abs (sp_ring s))"
    unfolding assms(2) z by simp_all
  moreover from ring_run_refines [OF ring_new_inv [OF assms(1), of fill], of es] f
  have "fst (ring_run (ring_new capacity fill) es) = sp_out s"
    and "ring_abs (snd (ring_run (ring_new capacity fill) es)) = ring_abs (sp_ring s)"
    by simp_all
  ultimately show ?thesis by blast
qed

section \<open>The split producer and consumer conserve frames\<close>

text \<open>However the producer's stores and cursor advances interleave with the consumer's
  loads and cursor advances, the frames handed on, followed by those buffered and the one
  stored but not yet published, are the frames taken from the hardware in order, never
  duplicated or reordered, less dropped ones; and the overrun counter is exactly the number
  dropped (spec sections 5 and 8: single-writer/single-reader discipline without a lock).\<close>

theorem spsc_any_interleaving_conserves:
  assumes "0 < capacity" and "spsc_run as (spsc_init capacity fill xs) = s"
  shows "\<exists>taken kept. xs = taken @ sp_input s \<and> subseq kept taken \<and>
    sp_out s @ ring_contents (sp_ring s) @ (case sp_prod s of None \<Rightarrow> [] | Some x \<Rightarrow> [x]) = kept \<and>
    overruns (sp_ring s) = length taken - length kept"
proof -
  from spsc_run_conserves [OF spsc_init_inv [OF assms(1), of fill xs], of as] assms(2) obtain taken kept where
    "xs = taken @ sp_input s" and "subseq kept taken" and "spsc_seen s = kept"
    and "overruns (sp_ring s) = length taken - length kept"
    by auto
  then show ?thesis by (auto simp: spsc_seen_def)
qed

theorem spsc_any_interleaving_conserves_witness:
  "sp_out demo_spsc = [] \<and> ring_contents (sp_ring demo_spsc) = [10, 20] \<and> overruns (sp_ring demo_spsc) = 1 \<and>
   (\<exists>taken kept. [10, 20, 30] = taken @ sp_input demo_spsc \<and> subseq kept taken \<and>
      sp_out demo_spsc @ ring_contents (sp_ring demo_spsc) @
        (case sp_prod demo_spsc of None \<Rightarrow> [] | Some x \<Rightarrow> [x]) = kept \<and>
      overruns (sp_ring demo_spsc) = length taken - length kept)"
proof -
  have run: "spsc_run demo_sched (spsc_init 2 0 [10, 20, 30]) = demo_spsc" by (simp only: demo_spsc_def)
  have t: "sp_out demo_spsc = [] \<and> ring_contents (sp_ring demo_spsc) = [10, 20] \<and> overruns (sp_ring demo_spsc) = 1"
    by code_simp
  from t spsc_any_interleaving_conserves [OF _ run] show ?thesis by simp
qed

text \<open>The consumer catches up: once the hardware has no more frames, one producer move
  (publishing a stored frame, if any) and twice the capacity in consumer moves hand on every
  frame that was not dropped, in order, whatever interleaving came before (spec sections 5
  and 4.6: the consumer loop drains the buffer; only overruns lose frames).\<close>

theorem spsc_consumer_catches_up:
  assumes "0 < capacity" and "spsc_run as (spsc_init capacity fill xs) = s" and "sp_input s = []"
  shows "\<exists>kept. subseq kept xs \<and>
    sp_out (spsc_run (Producer # replicate (2 * capacity) Consumer) s) = kept \<and>
    overruns (sp_ring (spsc_run (Producer # replicate (2 * capacity) Consumer) s)) = length xs - length kept"
proof -
  have i0: "spsc_inv (spsc_init capacity fill xs)" using assms(1) by (rule spsc_init_inv)
  from spsc_run_conserves [OF i0, of as] assms(2,3) obtain kept where i: "spsc_inv s"
    and l: "length (slots (sp_ring s)) = capacity" and sub: "subseq kept xs"
    and seen: "spsc_seen s = kept" and o: "overruns (sp_ring s) = length xs - length kept"
    by auto
  define s1 where "s1 = spsc_step Producer s"
  have in1: "sp_input s1 = []" and p1: "sp_prod s1 = None"
    using assms(3) by (simp_all add: s1_def Let_def split: option.splits)
  from spsc_step_conserves [OF i, of Producer] assms(3) l have i1: "spsc_inv s1"
    and l1: "length (slots (sp_ring s1)) = capacity" and seen1: "spsc_seen s1 = spsc_seen s"
    and o1: "overruns (sp_ring s1) = overruns (sp_ring s)"
    unfolding s1_def by auto
  have "ring_inv (sp_ring s1)" using i1 by (simp add: spsc_inv_def)
  then have "length (ring_contents (sp_ring s1)) \<le> capacity"
    using l1 by (simp add: ring_inv_def length_ring_contents)
  then have bound: "2 * length (ring_contents (sp_ring s1)) - (case sp_cons s1 of None \<Rightarrow> 0 | Some v \<Rightarrow> 1) \<le> 2 * capacity"
    by (cases "sp_cons s1") simp_all
  let ?s2 = "spsc_run (replicate (2 * capacity) Consumer) s1"
  from spsc_consumer_drains [OF i1 bound] have d: "ring_contents (sp_ring ?s2) = []"
    "sp_prod ?s2 = sp_prod s1" "spsc_seen ?s2 = spsc_seen s1" "overruns (sp_ring ?s2) = overruns (sp_ring s1)"
    by blast+
  from d(3) seen1 seen have "spsc_seen ?s2 = kept" by simp
  with d(1,2) p1 have "sp_out ?s2 = kept" by (simp add: spsc_seen_def)
  moreover from d(4) o1 o have "overruns (sp_ring ?s2) = length xs - length kept" by simp
  moreover have "spsc_run (Producer # replicate (2 * capacity) Consumer) s = spsc_run (replicate (2 * capacity) Consumer) s1"
    by (simp only: spsc_run.simps(2) s1_def)
  ultimately show ?thesis using sub by auto
qed

theorem spsc_consumer_catches_up_witness:
  "sp_input demo_spsc = [] \<and> sp_out (spsc_run (Producer # replicate (2 * 2) Consumer) demo_spsc) = [10, 20] \<and>
   (\<exists>kept. subseq kept [10, 20, 30] \<and>
      sp_out (spsc_run (Producer # replicate (2 * 2) Consumer) demo_spsc) = kept \<and>
      overruns (sp_ring (spsc_run (Producer # replicate (2 * 2) Consumer) demo_spsc)) = length [10, 20, 30 :: nat] - length kept)"
proof -
  have run: "spsc_run demo_sched (spsc_init 2 0 [10, 20, 30]) = demo_spsc" by (simp only: demo_spsc_def)
  have t: "sp_input demo_spsc = []" "sp_out (spsc_run (Producer # replicate (2 * 2) Consumer) demo_spsc) = [10, 20]"
    by code_simp+
  from t spsc_consumer_catches_up [OF _ run t(1)] show ?thesis by simp
qed

end
