(* ===== verification/Stop_Safety.thy ===== *)
theory Stop_Safety
  imports Controller
begin

text \<open>
  Stopping is always safe (spec sections 4.3 and 4.6): \<open>stop()\<close> may be called in any state
  of the pipeline and of its engine, and is idempotent on an engine that is already
  \<open>Idle\<close>. A pipeline whose start failed is \<open>Failed\<close> with its engine rolled back to
  \<open>Idle\<close>; its \<open>stop\<close> still calls the engine's \<open>stop\<close>, which then must change nothing.
  \<open>solo_inv\<close> is what a single pipeline's run keeps of the peripheral: only its own engine
  ever owns it, and only while the pipeline is running.
\<close>

definition solo_inv :: "nat \<Rightarrow> 'a::len mic_pipeline \<Rightarrow> 'a mic_system \<Rightarrow> bool" where
  "solo_inv k pl s \<longleftrightarrow>
     p_engine pl = k \<and> (owner s = None \<or> owner s = Some k) \<and>
     (pstate pl \<noteq> PipelineRunning \<longrightarrow> owner s = None)"

section \<open>Lemmas: the engine's stop on an idle engine and the owner\<close>

lemma engine_stop_beyond: "length (engines s) \<le> i \<Longrightarrow> engine_stop i s = ([], s)"
  by (simp add: engine_stop_def engine_stop_begin_def engine_release_def update_engine_def list_update_beyond)

text \<open>The engine's \<open>stop\<close> on an idle engine, or on an index with no engine, changes nothing
  and hands on no frame.\<close>

lemma engine_stop_idle:
  assumes "acq_inv s" and "i < length (engines s) \<Longrightarrow> eng_state (engines s ! i) = Idle"
  shows "engine_stop i s = ([], s)"
proof (cases "i < length (engines s)")
  case True
  with assms have idle: "eng_state (engines s ! i) = Idle" by simp
  with acq_inv_nth [OF assms(1) True] have "eng_config (engines s ! i) = None"
    and "eng_buffer (engines s ! i) = None" and "owner s \<noteq> Some i"
    by (auto simp: engine_ok_def)
  moreover have "update_engine i (\<lambda>e. e\<lparr>eng_state := Idle, eng_config := None, eng_buffer := None\<rparr>) s = s"
    using idle calculation by (intro update_engine_id) (cases "engines s ! i", simp)
  ultimately show ?thesis using engine_stop_eq [OF assms(1) True] by (simp add: engine_frames_def)
qed (simp add: engine_stop_beyond)

lemma engine_stop_owner_None:
  assumes "acq_inv s" and "owner s = None \<or> owner s = Some i"
  shows "owner (snd (engine_stop i s)) = None"
proof (cases "i < length (engines s)")
  case True
  then show ?thesis using assms by (auto simp: engine_stop_eq [OF assms(1) True])
next
  case False
  with assms have "owner s = None" by (auto simp: acq_inv_def)
  with False show ?thesis by (simp add: engine_stop_beyond)
qed

lemma acq_inv_all_idle:
  "acq_inv s \<Longrightarrow> owner s = None \<Longrightarrow> \<forall>i < length (engines s). eng_state (engines s ! i) = Idle"
  by (simp add: acq_inv_others_idle)

lemma engine_start_owner:
  assumes "engine_start drv i cfg s = (res, s')" and "owner s = None"
  shows "owner s' = (if res = None then Some i else None)"
  using assms by (auto simp: engine_start_def engine_claim_def engine_init_def split: if_splits)

lemma engine_consume_owner [simp]: "owner (snd (engine_consume i s)) = owner s"
  by (simp add: engine_consume_def split_beta split: option.splits)

lemma ctrl_poll_keeps:
  "pstate (fst (ctrl_poll pl s)) = pstate pl \<and> p_engine (fst (ctrl_poll pl s)) = p_engine pl \<and>
   owner (snd (ctrl_poll pl s)) = owner s"
proof -
  have "owner (snd (engine_consume (p_engine pl) s)) = owner s" by simp
  then show ?thesis
    by (cases "engine_consume (p_engine pl) s") (auto simp: ctrl_poll_def split: option.splits)
qed

section \<open>Lemmas: a single pipeline's run keeps \<open>solo_inv\<close>\<close>

lemma solo_inv_init: "solo_inv k (pipeline_init k) (acq_init n cap z)"
  by (simp add: solo_inv_def pipeline_init_def acq_init_def)

lemma solo_inv_start:
  assumes "solo_inv k pl s" and "ctrl_start drv req pl s = (res, pl', s')"
  shows "solo_inv k pl' s'"
proof (cases "pstate pl = PipelineRunning")
  case True
  then have "pl' = pl \<and> s' = s" using assms(2) by (auto simp: ctrl_start_def split: option.splits)
  with assms(1) show ?thesis by simp
next
  case False
  with assms(1) have o: "owner s = None" and k: "p_engine pl = k" by (simp_all add: solo_inv_def)
  show ?thesis
  proof (cases "engine_start drv k (the (p_config pl)) s")
    case (Pair r s1)
    from engine_start_owner [OF Pair o] have "owner s1 = (if r = None then Some k else None)" .
    then show ?thesis using assms(2) o k Pair
      by (auto simp: ctrl_start_def solo_inv_def split: option.splits sum.splits if_splits)
  qed
qed

lemma solo_inv_step:
  assumes "acq_inv s" and "solo_inv k pl s" and "ctrl_step build drv e (pl, s) = (pl', s')"
  shows "solo_inv k pl' s'"
proof (cases e)
  case (Setup r)
  with assms(2,3) show ?thesis
    by (auto simp: ctrl_setup_def solo_inv_def split: sum.splits if_splits)
next
  case (Start req)
  with assms(2,3) solo_inv_start show ?thesis by (cases "ctrl_start drv req pl s") auto
next
  case (Interrupt x)
  with assms(2,3) show ?thesis by (auto simp: solo_inv_def engine_produce_def)
next
  case HwFault
  with assms(2,3) show ?thesis by (auto simp: solo_inv_def engine_fail_def)
next
  case Poll
  with assms(2,3) ctrl_poll_keeps [of pl s] show ?thesis by (simp add: solo_inv_def)
next
  case (Stop b)
  have "owner s = None \<or> owner s = Some (p_engine pl)" using assms(2) by (simp add: solo_inv_def)
  from engine_stop_owner_None [OF assms(1) this] Stop assms(2,3) show ?thesis
    by (auto simp: ctrl_stop_def solo_inv_def split_beta split: if_splits)
qed

lemma solo_inv_run:
  "acq_inv (snd st) \<Longrightarrow> solo_inv k (fst st) (snd st) \<Longrightarrow>
   solo_inv k (fst (ctrl_run build drv st es)) (snd (ctrl_run build drv st es))"
proof (induction es arbitrary: st)
  case (Cons e es)
  obtain pl s where st: "st = (pl, s)" by fastforce
  obtain pl' s' where st': "ctrl_step build drv e (pl, s) = (pl', s')" by fastforce
  have "acq_inv s'"
    using acq_steps_inv [OF ctrl_step_steps [of drv s build e pl]] Cons.prems(1) st st' by simp
  moreover have "solo_inv k pl' s'" using solo_inv_step [of s k pl build drv e] Cons.prems st st' by simp
  ultimately show ?case using Cons.IH [of "(pl', s')"] st st' by simp
qed simp

lemma solo_inv_ctrl_run:
  assumes "ctrl_run build drv (pipeline_init k, acq_init n cap z) es = (pl, s)" and "0 < cap"
  shows "solo_inv k pl s \<and> acq_inv s"
proof -
  have "acq_inv (acq_init n cap z)" by (rule acq_inv_init_state [OF assms(2)])
  from solo_inv_run [of "(pipeline_init k, acq_init n cap z)", OF _ _, of k build drv es] this
    solo_inv_init [of k n cap z] assms(1)
  have "solo_inv k pl s" by simp
  moreover have "acq_inv s" using acq_reach_inv [OF acq_reach_ctrl_run [OF assms(2)]] assms(1)
    by (metis snd_conv)
  ultimately show ?thesis ..
qed

text \<open>The frames a stop hands on and the state it leaves, when the pipeline is not running:
  a failed start left the engine idle, so the stop calls the engine's \<open>stop\<close> for nothing.\<close>

lemma ctrl_stop_not_running_eq:
  assumes "acq_inv s" and "solo_inv k pl s" and "pstate pl \<noteq> PipelineRunning"
  shows "ctrl_stop b pl s =
    (if pstate pl = PipelineFailed then pl\<lparr>pstate := Stopped\<rparr> else pl, s)"
proof -
  from assms(2,3) have "owner s = None" and k: "p_engine pl = k" by (simp_all add: solo_inv_def)
  from engine_stop_idle [OF assms(1)] acq_inv_all_idle [OF assms(1) this(1)]
  have "engine_stop k s = ([], s)" by simp
  with assms(3) k show ?thesis by (simp add: ctrl_stop_def)
qed

section \<open>Stopping is safe and idempotent\<close>

text \<open>C13: on every run of an I2S pipeline, \<open>stop\<close> may be called whatever state the run
  has reached: afterwards the pipeline is not running, no engine owns the peripheral and
  every engine is \<open>Idle\<close>; a second \<open>stop\<close> of the pipeline, or of its engine directly,
  changes nothing and hands on no frame; and a stop of a pipeline that was not running
  (never started, already stopped, or whose start failed and rolled back) leaves the
  engines as they were and delivers nothing (spec sections 4.3 and 4.6).\<close>

theorem pipeline_stop_safe_idempotent:
  assumes run: "ctrl_run (i2s_build p reg) drv (pipeline_init k, acq_init n cap z) es = (pl, s)"
    and cap: "0 < cap" and stop: "ctrl_stop b pl s = (pl', s')"
  shows "pstate pl' \<noteq> PipelineRunning \<and> owner s' = None \<and>
    (\<forall>i < length (engines s'). eng_state (engines s' ! i) = Idle) \<and>
    ctrl_stop b' pl' s' = (pl', s') \<and> engine_stop k s' = ([], s') \<and>
    (pstate pl \<noteq> PipelineRunning \<longrightarrow> s' = s \<and> delivered pl' = delivered pl)"
proof -
  from solo_inv_ctrl_run [OF run cap] have solo: "solo_inv k pl s" and inv: "acq_inv s" by simp_all
  have run': "ctrl_run (i2s_build p reg) drv (pipeline_init k, acq_init n cap z) (es @ [Stop b]) = (pl', s')"
    using run stop by (simp add: ctrl_run_append)
  from solo_inv_ctrl_run [OF run' cap] have solo': "solo_inv k pl' s'" and inv': "acq_inv s'" by simp_all
  have nr: "pstate pl' \<noteq> PipelineRunning" using ctrl_stop_not_running [of b pl s] stop by simp
  with solo' have o: "owner s' = None" by (simp add: solo_inv_def)
  have idle: "\<forall>i < length (engines s'). eng_state (engines s' ! i) = Idle"
    by (rule acq_inv_all_idle [OF inv' o])
  have again: "ctrl_stop b' pl' s' = (pl', s')"
  proof (cases "pstate pl = PipelineRunning \<or> pstate pl = PipelineFailed")
    case True
    with stop have "pstate pl' = Stopped" by (auto simp: ctrl_stop_def split_beta)
    then show ?thesis by (simp add: ctrl_stop_def)
  next
    case False
    with stop have "pl' = pl" by (simp add: ctrl_stop_def)
    with False show ?thesis by (simp add: ctrl_stop_def)
  qed
  have "engine_stop k s' = ([], s')" using engine_stop_idle [OF inv'] idle by simp
  moreover have "pstate pl \<noteq> PipelineRunning \<longrightarrow> s' = s \<and> delivered pl' = delivered pl"
    using ctrl_stop_not_running_eq [OF inv solo, of b] stop by auto
  ultimately show ?thesis using nr o idle again by simp
qed

text \<open>A start on a driver that refuses the configuration fails and rolls back; the stop
  that follows changes nothing.\<close>

theorem pipeline_stop_safe_idempotent_witness:
  "ctrl_run (i2s_build (example_platform VARIANT_ESP32) [''audio_device'']) (\<lambda>ss. False)
      (pipeline_init 0, acq_init 1 2 []) [Setup mic_internal_34, Start None] =
     (fst (ctrl_run (i2s_build (example_platform VARIANT_ESP32) [''audio_device'']) (\<lambda>ss. False)
        (pipeline_init 0, acq_init 1 2 []) [Setup mic_internal_34, Start None]), acq_init 1 2 [] :: 8 mic_system) \<and>
   pstate (fst (ctrl_run (i2s_build (example_platform VARIANT_ESP32) [''audio_device'']) (\<lambda>ss. False)
        (pipeline_init 0, acq_init 1 2 []) [Setup mic_internal_34, Start None] :: 8 mic_pipeline \<times> 8 mic_system)) =
     PipelineFailed \<and>
   snd (ctrl_stop True (fst (ctrl_run (i2s_build (example_platform VARIANT_ESP32) [''audio_device'']) (\<lambda>ss. False)
        (pipeline_init 0, acq_init 1 2 []) [Setup mic_internal_34, Start None])) (acq_init 1 2 [] :: 8 mic_system)) =
     acq_init 1 2 []"
proof -
  define pl :: "8 mic_pipeline" where "pl = fst (ctrl_run (i2s_build (example_platform VARIANT_ESP32) [''audio_device''])
      (\<lambda>ss. False) (pipeline_init 0, acq_init 1 2 []) [Setup mic_internal_34, Start None])"
  have run: "ctrl_run (i2s_build (example_platform VARIANT_ESP32) [''audio_device'']) (\<lambda>ss. False)
      (pipeline_init 0, acq_init 1 2 []) [Setup mic_internal_34, Start None] = (pl, acq_init 1 2 [] :: 8 mic_system)"
    unfolding pl_def by code_simp
  have f: "pstate pl = PipelineFailed" unfolding pl_def by code_simp
  have "snd (ctrl_stop True pl (acq_init 1 2 [])) = acq_init 1 2 []"
    using pipeline_stop_safe_idempotent [OF run _ prod.collapse [symmetric], of True True] f by simp
  with run f show ?thesis unfolding pl_def by simp
qed

end
