(* ===== verification/Spec2Isabelle.thy ===== *)
theory Spec2Isabelle
  imports Loading Codegen_Types Ring_Concurrency Stop_Safety
begin

text \<open>
  \<^bold>\<open>A verification development of the ESPHome audio microphone platforms.\<close>

  \<^bold>\<open>The program.\<close> The repository's sources are two ESPHome code-generation platforms, both
  in Python: \<open>src/esphome/components/i2s_audio/microphone/__init__.py\<close> (an I2S microphone fed
  by the ESP32's internal ADC or by an external I2S/PDM device) and
  \<open>src/esphome/components/adf_pipeline/microphone/__init__.py\<close> (a microphone element of an
  ADF pipeline with a log2 gain). Each has a \<open>CONFIG_SCHEMA\<close> (voluptuous validators that
  turn a user's YAML entry into a typed configuration, or a list of errors) and a
  \<open>to_code\<close> that emits the C++ set-up statements and registers the microphone, through a
  compatibility branch when the installed \<open>register_microphone\<close> predates the
  \<open>audio_device\<close> capability argument. The capture runtime these statements configure
  (acquisition engine, sample ring, normaliser, pipeline controller) is C++ that is not part
  of \<open>src/\<close>; it is modelled from the specification, and the model is driven by what the
  Python code generates.

  \<^bold>\<open>Theories and what they model.\<close>
  \<^item> \<open>Mic_Prelude\<close>: the ESP32 variants, the \<open>error\<close> datatype (every \<open>cv.Invalid\<close>,
    \<open>KeyError\<close>, \<open>NotImplementedError\<close> of the code and the runtime errors of spec section 7),
    \<open>'a validated = error list + 'a\<close>, and the validation library: \<open>ap_v\<close> (a schema collects
    the errors of all its fields), \<open>optional_v\<close>/\<open>required_v\<close> (\<open>cv.Optional\<close>/\<open>cv.Required\<close>),
    \<open>enum_v\<close> (\<open>cv.enum\<close>), \<open>int_range_v\<close> (\<open>cv.int_range\<close>), \<open>all_v\<close> (\<open>cv.All\<close>: stop at the
    first failing stage), \<open>no_extra_keys\<close>; with their evaluation lemmas and generic list lemmas.
  \<^item> \<open>Platform\<close>: the collaborators the code imports, as a record \<open>platform\<close> (the current
    variant of \<open>esp32.get_esp32_variant\<close>, the ADC1 table \<open>ESP32_VARIANT_ADC1_PIN_TO_CHANNEL\<close>,
    the pin validators \<open>validate_adc_pin\<close> and \<open>internal_gpio_input_pin_number\<close>); the
    lists \<open>INTERNAL_ADC_VARIANTS\<close> and \<open>PDM_VARIANTS\<close> (source lines 48-49); fixtures with
    the ESP32 and ESP32-S3 ADC1 tables.
  \<^item> \<open>I2S_Schema\<close>: \<open>CHANNELS\<close>, \<open>BITS_PER_SAMPLE\<close>, the field validators of \<open>BASE_SCHEMA\<close>
    (lines 68-79), the \<open>internal\<close> and \<open>external\<close> branches of \<open>cv.typed_schema\<close> (lines
    81-100) as \<open>internal_schema\<close>, \<open>external_schema\<close>, \<open>i2s_typed_schema\<close>,
    \<open>validate_esp32_variant\<close> (lines 54-65) and \<open>i2s_CONFIG_SCHEMA\<close> (lines 81-102). The raw
    YAML entry is \<open>raw_mic_config\<close> (a field is \<open>None\<close> when the key is absent), the
    validated one \<open>i2s_mic_config\<close>.
  \<^item> \<open>Microphone_Registration\<close>: the emitted statements as the datatype \<open>cg_stmt\<close>, and the
    two registration paths of lines 121-128 as \<open>register_microphone_compat\<close> over the
    parameter names of \<open>register_microphone\<close>.
  \<^item> \<open>I2S_Codegen\<close>: \<open>to_code\<close> (lines 105-129) as \<open>i2s_to_code\<close>; its table lookup
    \<open>ESP32_VARIANT_ADC1_PIN_TO_CHANNEL[variant][pin_num]\<close> (lines 112-114, \<open>adc_channel_of\<close>)
    may raise \<open>KeyError\<close>; and \<open>i2s_build\<close>, schema then code generation.
  \<^item> \<open>ADF_Microphone\<close>: the ADF \<open>CONFIG_SCHEMA\<close> (gain in 0..7, default 0), \<open>to_code\<close>
    with the platform's own copy of the registration (\<open>adf_audio_device\<close>,
    \<open>adf_register_microphone\<close>, lines 39-47, shown equal to the I2S platform's), and
    \<open>adf_build\<close>.
  \<^item> \<open>Capability\<close>: the specification's capability validator (\<open>capability_validate\<close>, rules
    in the spec's fixed order), the resolver \<open>resolve\<close>, the abstraction \<open>acq_of_raw\<close> from a
    raw entry to the spec's \<open>AcquisitionConfig\<close>, and the negotiator \<open>negotiate\<close> with the
    offer \<open>offer_of_registration\<close> of a generated registration (legacy registration offers
    the default single channel).
  \<^item> \<open>Normalizer\<close>: the normaliser of spec section 4.4 on \<open>'a word\<close> samples: \<open>sat_shl\<close>, the
    reference left shift with saturation computed on \<open>sint\<close>, \<open>sat_shl_fast\<close>, the comparison
    form a firmware uses (compare against \<open>signed_drop_bit g\<close> of the bounds, then
    \<open>push_bit\<close>), and \<open>normalize_frame\<close>, which pads or truncates a frame to the negotiated
    channel count.
  \<^item> \<open>Sample_Buffer\<close>: the single-producer, single-consumer ring \<open>'a ring\<close> with free-running
    cursors, drop-and-count on overrun (\<open>ring_push\<close>, \<open>ring_pop\<close>, \<open>ring_drain\<close>), and its
    abstract specification, the bounded queue \<open>'a fifo\<close>.
  \<^item> \<open>Ring_Concurrency\<close>: the access discipline of spec section 5 below the ring operations:
    the producer stores a frame and then advances \<open>wr\<close>, the consumer loads a slot and then
    advances \<open>rd\<close> (\<open>spsc_step\<close> on the state \<open>'a spsc\<close>), interleaved by any schedule
    (\<open>spsc_run\<close>); every such move is on the abstract queue no step or exactly one atomic
    buffer event (\<open>spsc_step_refines\<close>), so any interleaving is simulated by the atomic
    \<open>ring_run\<close> the engine performs (\<open>spsc_simulated_by_ring_run\<close>).
  \<^item> \<open>Loading\<close>: the platforms' \<open>DEPENDENCIES\<close> (I2S line 24, ADF line 17) and the
    framework loader's check in front of the build (\<open>check_dependencies\<close>,
    \<open>load_platform\<close>): a missing dependency rejects every entry before its schema runs,
    with one \<open>RequiresComponent\<close> error per missing component, and a pipeline over such a
    platform never leaves its initial state (\<open>ctrl_run_missing_dependency\<close>).
  \<^item> \<open>Engine\<close>: the acquisition engines that share one peripheral (\<open>acq_system\<close>), with the
    two-phase \<open>start\<close> (claim, then driver initialisation with rollback) and \<open>stop\<close>
    (disable, then drain and release), the producer interrupt, a peripheral fault and the
    consumer's pop, and the inductive step relation \<open>acq_step\<close> interleaving all of them.
  \<^item> \<open>Controller\<close>: the pipeline controller; \<open>ctrl_setup\<close> runs a build function of the
    code (\<open>i2s_build\<close> or \<open>adf_build\<close>), \<open>ctrl_start\<close> negotiates against the generated
    registration's offer and starts the engine, \<open>ctrl_poll\<close> normalises one frame with the
    generated gain, \<open>ctrl_stop\<close> stops and drains; \<open>ctrl_run\<close> applies a list of events.
  \<^item> \<open>Pipeline_Paths\<close>: the consumer's read loop \<open>ctrl_drain\<close> (poll until no frame comes),
    the invariant \<open>format_ok\<close> of the output format, and the paths of a pipeline outside the
    steady state: the single-channel I2S case, a peripheral fault, a rejected setup.
  \<^item> \<open>Stop_Safety\<close>: the invariant \<open>solo_inv\<close> of a single pipeline's run (only its own
    engine ever owns the peripheral, and only while the pipeline runs), the engine's
    \<open>stop\<close> on an idle engine (\<open>engine_stop_idle\<close>: no frame, no change) and the stop of a
    pipeline that is not running (\<open>ctrl_stop_not_running_eq\<close>).
  \<^item> \<open>Codegen_Types\<close>: the C++ classes the platforms declare (\<open>I2SAudioMicrophone\<close>, lines
    33-35 of the I2S platform; \<open>ADFMicrophone\<close>, lines 21-23 of the ADF platform) with their
    bases, the code generator's \<open>inherits_from\<close> as an inductive relation, the class each
    generated statement needs (\<open>stmt_requires\<close>) and the class \<open>cv.declare_id\<close> gives the
    variable (\<open>i2s_id_class\<close>, \<open>adf_id_class\<close>).

  \<^bold>\<open>What is proved.\<close> The claims C1 to C36 are the theorems preceded by a text naming them.
  \<^item> Schema (C1-C8, \<open>I2S_Schema\<close>): an accepted entry is well formed; PDM on a variant outside
    \<open>PDM_VARIANTS\<close> and the internal ADC outside \<open>INTERNAL_ADC_VARIANTS\<close> are rejected with
    their specific errors; the \<open>NotImplementedError\<close> and \<open>KeyError\<close> branches of
    \<open>validate_esp32_variant\<close> are unreachable; field errors are reported before variant
    errors, every bad field is reported; defaults; validated configurations round-trip.
  \<^item> Code generation (C9-C12, \<open>I2S_Codegen\<close>): what \<open>i2s_build\<close> accepts; the ADC1 lookup
    resolves the pin to its channel; a pin that \<open>validate_adc_pin\<close> admits but that is not in
    the ADC1 table raises \<open>KeyError\<close>; the microphone is registered exactly once, last.
  \<^item> Stop (C13, \<open>Stop_Safety\<close>): on every run of an I2S pipeline \<open>stop\<close> may be called in
    any state; afterwards nothing runs and no engine holds the peripheral, a second stop of
    the pipeline or of its engine changes nothing, and the stop of a pipeline that was not
    running (a failed start included) changes nothing in the engines.
  \<^item> ADF (C14, \<open>ADF_Microphone\<close>): the gain accepted is exactly 0..7 and reaches
    \<open>set_gain_log2\<close> (\<open>adf_CONFIG_SCHEMA_gain\<close> gives the schema on every input).
  \<^item> Contracts (C15-C17, \<open>Capability\<close>): a refinement of the spec's validator by the code
    (the code rejects what the spec's validator rejects, and on what it accepts generates
    the statements for the channel the spec resolves), agreement of the errors on entries
    with valid keys, and negotiation against both registration paths; the lemma
    \<open>capability_validate_error_order_differs\<close> exhibits the divergence of the error order
    (below).
  \<^item> Normaliser (C18-C19): with a validated gain the shift saturates exactly (never wraps),
    and gain 0 at full width is the identity; \<open>sat_shl_fast_eq_sat_shl\<close> shows the fast
    comparison form equal to the reference below the width.
  \<^item> Pipelines and engines (C20-C26, \<open>Controller\<close>): however the events of several I2S
    pipelines interleave, at most one runs and it owns the peripheral with an engine
    configured by statements the code generated from an accepted input; a start that the
    driver refuses fails with \<open>PeripheralInitError\<close>, leaves the engine system exactly as it
    was, and a retry with an accepting driver succeeds; \<open>stop\<close> forwards or discards exactly
    the buffered frames, releases the peripheral and silences the producer; from setup and
    start, the frames handed on are the produced frames in order less exactly the counted
    overruns, normalised with the validated gain; after a restart only new frames are
    delivered; a second
    pipeline's start fails cleanly while the peripheral is owned; negotiation rejects more
    than one channel.
  \<^item> Paths (C27-C32, \<open>Pipeline_Paths\<close>): an I2S microphone started for one channel passes
    single-sample frames through unchanged, in order, less overruns; after a peripheral fault
    nothing is added and the consumer drains exactly what was buffered; a rejected entry fails
    the setup with a non-empty error list and no later event touches pipeline or engines; the
    read loop terminates from every reachable state and then every kept frame has been handed
    on, the overrun counter counting exactly the dropped ones; over any run the channel count
    and every delivered frame stay within the advertised single channel.
  \<^item> Stream settings (C35, \<open>I2S_Codegen\<close>): for the internal ADC the generated code does not
    depend on the validated channel, sample rate, bit depth or APLL setting (a finding, below).
  \<^item> Typing (C33-C34, \<open>Codegen_Types\<close>): every statement list either platform generates is
    well typed for the class its schema declares, and the ADF statements are not well typed
    for the I2S class.
  \<^item> Loading (C36, \<open>Loading\<close>): with \<open>i2s_audio\<close> configured a pipeline over the loaded I2S
    platform runs exactly as over \<open>i2s_build\<close>; without it every entry is rejected with the
    one \<open>RequiresComponent\<close> error and the pipeline never leaves its initial state.
  The engine theory also proves, for every reachable state of \<open>acq_step\<close> (any interleaving
  of the phases of start and stop, producer interrupts, faults and pops of all engines):
  mutual exclusion, rollback of a failed start, that stop drains and silences, and that
  after stop and restart every consumed frame is newer than every frame buffered before
  the stop; \<open>Sample_Buffer\<close> proves that an empty ring refines the bounded queue; and
  \<open>Ring_Concurrency\<close> proves that under any interleaving of the producer's stores and cursor
  advances with the consumer's loads and cursor advances the frames handed on, buffered and
  stored are the frames taken, in order, less exactly the counted drops
  (\<open>spsc_any_interleaving_conserves\<close>), and that once the hardware stops, twice the capacity
  in consumer moves hands on every kept frame (\<open>spsc_consumer_catches_up\<close>): the atomic
  ring operations the engine uses are a sound abstraction of the split ones.
  The proofs rest on invariants: \<open>acq_inv\<close> (proved for every step of \<open>acq_step\<close>, hence for
  every reachable state, \<open>acq_reach\<close>), \<open>pipe_inv\<close> and \<open>solo_inv\<close> (preserved by every controller event),
  \<open>ring_inv\<close>; on the simulation \<open>ctrl_run_steady\<close> of a steady-state run by \<open>ring_run\<close>, and
  on the refinement \<open>ring_run_refines\<close> of the ring by the queue and the conservation law
  \<open>fifo_run_conserves\<close> of the queue.

  \<^bold>\<open>Bounds and fuel.\<close> Words are generic in their width (\<open>'a::len word\<close>); the normaliser's
  results need the gain below the width, which the schema's range 0..7 gives for 8-bit and
  wider samples. The drain at stop is a loop with fuel \<open>wr - rd\<close>, the number of buffered
  frames, which \<open>ring_drain_all\<close> shows is enough to return all of them. The consumer's
  read loop \<open>ctrl_drain\<close> is a \<open>partial_function (option)\<close>: it would not return on a ring
  whose cursors are inconsistent, and \<open>ctrl_drain_ring\<close> shows, by induction on the number of
  buffered frames, that it returns on every ring satisfying \<open>ring_inv\<close>, hence from every
  state a run reaches (C30). All other definitions are structurally recursive. Fixtures are concrete (an ESP32 or ESP32-S3
  platform, one- or two-frame rings, 8-bit samples) and are evaluated by \<open>simp\<close> or
  \<open>code_simp\<close> in the witnesses.

  \<^bold>\<open>Findings.\<close> The code checks the variant (\<open>validate_esp32_variant\<close>) after the typed
  schema, while spec section 4.1 puts the variant rules first: an entry with both a bad field
  and an unsupported variant reports the field only (\<open>capability_validate_error_order_differs\<close>). The final \<open>raise
  NotImplementedError\<close> and the \<open>KeyError\<close> on a missing \<open>pdm\<close> key cannot be reached
  (C4). \<open>validate_adc_pin\<close> may admit a pin that the ADC1-only table of \<open>to_code\<close> lacks,
  which raises \<open>KeyError\<close> at code generation (C11). The registered offer bounds the channel request from
  above only: the specification's negotiation (section 4.5) accepts a request for
  zero channels, after which a pipeline hands on empty frames; neither the spec nor the offer sets a lower bound. For the
  internal ADC, \<open>to_code\<close> passes only the ADC channel to the C++ object; the sample rate,
  bit depth, channel slot and APLL setting that the schema validated are dropped (C35),
  while spec section 4.3 starts the engine under them.

  \<^bold>\<open>Not modelled.\<close> The common I2S schema \<open>CONFIG_SCHEMA_I2S_COMMON\<close> and the
  \<open>i2s_adc\<close> model key (their code is outside \<open>src/\<close>; the external branch accepts them without
  checking them); \<open>MICROPHONE_SCHEMA\<close>, \<open>COMPONENT_SCHEMA\<close>, the ADF pipeline controller's
  keys and ID generation; the text parsing of \<open>_validate_bits\<close> (line 51, the framework's
  \<open>cv.float_with_unit\<close>: the configuration front-end, which the spec puts out of scope; bit
  depths are modelled as the integers it returns); the imports and \<open>CODEOWNERS\<close>
  (no behaviour of the platform: the latter only names the maintainers); the order of errors inside a voluptuous error list (a list is compared as a
  list of the fields' errors in schema order); the generated C++ itself, whose behaviour is
  the runtime modelled from the specification; timing, DMA and memory ordering of the
  producer (the cursor discipline is modelled down to single stores, loads and cursor
  updates; that each cursor update is atomic and that a store is visible once the cursor
  advance after it is, is assumed as the spec states).
\<close>

end
